theory Spec2Isabelle
  imports Complex_Main "HOL-Library.Word" "HOL-Library.AList"
begin

section \<open>JavaScript numbers\<close>

text \<open>
  JavaScript numbers are modelled as reals; the one non-real value the modelled code can
  produce, \<open>NaN\<close> (from \<open>0 / 0\<close> and from arithmetic on \<open>undefined\<close>), is written out
  where it can arise.  \<open>Math.round\<close> rounds to the nearest integer, a tie going up.
\<close>

definition js_round :: "real \<Rightarrow> int" where
  "js_round x = \<lfloor>x + 1 / 2\<rfloor>"

datatype jsnum = Num real | NaN

text \<open>A number inside a template literal: an integer prints in decimal.\<close>

fun show_nat :: "nat \<Rightarrow> string" where
  "show_nat n =
     (if n < 10 then [''0123456789'' ! n]
      else show_nat (n div 10) @ [''0123456789'' ! (n mod 10)])"

declare show_nat.simps [simp del]

definition show_int :: "int \<Rightarrow> string" where
  "show_int i = (if i < 0 then ''-'' @ show_nat (nat (- i)) else show_nat (nat i))"

section \<open>Quality Aggregator (uiValidator.ts)\<close>

text \<open>The \<open>breakdown\<close> object of \<open>ValidationResult\<close>: six numeric fields, in this order.\<close>

record breakdown =
  visualSimilarity :: real
  layoutAccuracy :: real
  colorMatching :: real
  typographyMatch :: real
  interactionElements :: real
  brandConsistency :: real

text \<open>\<open>Object.entries(breakdown)\<close> and \<open>Object.values(breakdown)\<close>: own keys in insertion order.\<close>

definition entries :: "breakdown \<Rightarrow> (string \<times> real) list" where
  "entries b =
     [(''visualSimilarity'', visualSimilarity b),
      (''layoutAccuracy'', layoutAccuracy b),
      (''colorMatching'', colorMatching b),
      (''typographyMatch'', typographyMatch b),
      (''interactionElements'', interactionElements b),
      (''brandConsistency'', brandConsistency b)]"

definition object_values :: "breakdown \<Rightarrow> real list" where
  "object_values b = map snd (entries b)"

text \<open>The \<open>weights\<close> literal of \<open>calculateOverallScore\<close>, as a finite table.\<close>

definition weights :: "(string \<times> real) list" where
  "weights =
     [(''visualSimilarity'', 25 / 100),
      (''layoutAccuracy'', 20 / 100),
      (''colorMatching'', 15 / 100),
      (''typographyMatch'', 15 / 100),
      (''interactionElements'', 15 / 100),
      (''brandConsistency'', 10 / 100)]"

text \<open>\<open>weights[key] || 0\<close>: a missing key reads \<open>undefined\<close>, which is falsy, as is \<open>0\<close>.\<close>

definition weight_of :: "string \<Rightarrow> real" where
  "weight_of k = (case map_of weights k of None \<Rightarrow> 0 | Some w \<Rightarrow> if w = 0 then 0 else w)"

text \<open>One pass of the \<open>for ... of Object.entries(breakdown)\<close> loop over
  \<open>(totalScore, totalWeight)\<close>.\<close>

definition score_step :: "string \<times> real \<Rightarrow> real \<times> real \<Rightarrow> real \<times> real" where
  "score_step kv acc =
     (let weight = weight_of (fst kv)
      in (fst acc + snd kv * weight, snd acc + weight))"

definition calculateOverallScore :: "breakdown \<Rightarrow> int" where
  "calculateOverallScore b =
     (let (totalScore, totalWeight) = fold score_step (entries b) (0, 0)
      in js_round (totalScore / totalWeight))"

text \<open>\<open>calculateConfidence\<close>: both \<open>reduce\<close> calls are left folds from \<open>0\<close>.\<close>

definition average_of :: "real list \<Rightarrow> real" where
  "average_of scores = foldl (\<lambda>a b. a + b) 0 scores / real (length scores)"

definition variance_of :: "real list \<Rightarrow> real" where
  "variance_of scores =
     foldl (\<lambda>a b. a + (b - average_of scores) ^ 2) 0 scores / real (length scores)"

definition calculateConfidence :: "breakdown \<Rightarrow> int" where
  "calculateConfidence b =
     (let scores = object_values b;
          standardDeviation = sqrt (variance_of scores);
          confidence = max 0 (100 - standardDeviation)
      in js_round confidence)"

text \<open>The specification's reading of the confidence: the population standard deviation of
  the six sub-scores, taken from \<open>100\<close> and clamped at \<open>0\<close>, with no rounding.\<close>

definition spec_stddev :: "breakdown \<Rightarrow> real" where
  "spec_stddev b =
     (let xs = [visualSimilarity b, layoutAccuracy b, colorMatching b,
                typographyMatch b, interactionElements b, brandConsistency b];
          mu = sum_list xs / 6
      in sqrt (sum_list (map (\<lambda>x. (x - mu) ^ 2) xs) / 6))"

definition spec_confidence :: "breakdown \<Rightarrow> real" where
  "spec_confidence b = max 0 (100 - spec_stddev b)"

definition scenario_breakdown :: breakdown where
  "scenario_breakdown =
     \<lparr>visualSimilarity = 85, layoutAccuracy = 90, colorMatching = 85,
      typographyMatch = 80, interactionElements = 85, brandConsistency = 100\<rparr>"


definition half_split_breakdown :: breakdown where
  "half_split_breakdown =
     \<lparr>visualSimilarity = 80, layoutAccuracy = 80, colorMatching = 80,
      typographyMatch = 81, interactionElements = 81, brandConsistency = 81\<rparr>"

section \<open>Pixel Comparator (uiValidator.ts)\<close>

text \<open>
  A decoded Jimp image, as far as \<open>comparePixelLevel\<close> reads it: its two dimensions and
  \<open>getPixelColor(x, y)\<close>, an unsigned 32-bit number holding the four channel bytes, red in
  the top byte.  \<open>Jimp.intToRGBA\<close> takes the four bytes apart.
\<close>

record Image =
  getWidth :: nat
  getHeight :: nat
  getPixelColor :: "nat \<Rightarrow> nat \<Rightarrow> 32 word"

record RGBA =
  rgba_r :: "8 word"
  rgba_g :: "8 word"
  rgba_b :: "8 word"
  rgba_a :: "8 word"

definition intToRGBA :: "32 word \<Rightarrow> RGBA" where
  "intToRGBA i =
     \<lparr>rgba_r = ucast (drop_bit 24 i), rgba_g = ucast (drop_bit 16 i),
      rgba_b = ucast (drop_bit 8 i), rgba_a = ucast i\<rparr>"

record Region =
  region_x :: nat
  region_y :: nat
  region_width :: nat
  region_height :: nat

datatype DifferenceType = Color | Structure | Missing | Extra

record ImageDifference =
  region :: Region
  diff_type :: DifferenceType
  severity :: real
  description :: string

record PixelComparisonResult =
  similarity :: jsnum
  differences :: "ImageDifference list"

definition threshold :: real where
  "threshold = 30"

text \<open>The Euclidean distance of two pixels in RGB space (\<open>diff\<close> in the source).\<close>

definition color_diff :: "RGBA \<Rightarrow> RGBA \<Rightarrow> real" where
  "color_diff color1 color2 =
     sqrt ((real (unat (rgba_r color2)) - real (unat (rgba_r color1))) ^ 2 +
           (real (unat (rgba_g color2)) - real (unat (rgba_g color1))) ^ 2 +
           (real (unat (rgba_b color2)) - real (unat (rgba_b color1))) ^ 2)"

definition pixel_diff :: "Image \<Rightarrow> Image \<Rightarrow> nat \<Rightarrow> nat \<Rightarrow> real" where
  "pixel_diff original rendered x y =
     color_diff (intToRGBA (getPixelColor original x y))
                (intToRGBA (getPixelColor rendered x y))"

text \<open>The record pushed for a pixel whose distance is \<open>diff\<close>.\<close>

definition difference_at :: "nat \<Rightarrow> nat \<Rightarrow> real \<Rightarrow> ImageDifference" where
  "difference_at x y diff =
     \<lparr>region = \<lparr>region_x = x, region_y = y, region_width = 1, region_height = 1\<rparr>,
      diff_type = Color,
      severity = min (diff / 255) 1,
      description = ''Color difference: '' @ show_int (js_round diff)\<rparr>"

text \<open>
  The body of the inner loop, on the three variables the loops update:
  \<open>(totalDifference, differences, pixelCount)\<close>.
\<close>

definition compare_pixel ::
  "Image \<Rightarrow> Image \<Rightarrow> nat \<Rightarrow> nat \<Rightarrow>
   real \<times> ImageDifference list \<times> nat \<Rightarrow> real \<times> ImageDifference list \<times> nat" where
  "compare_pixel original rendered y x st =
     (case st of (totalDifference, found, pixelCount) \<Rightarrow>
        let diff = pixel_diff original rendered x y
        in (totalDifference + diff,
            (if diff > threshold \<and> length found < 100
             then found @ [difference_at x y diff] else found),
            pixelCount + 1))"

text \<open>\<open>for y < height\<close> around \<open>for x < width\<close>.\<close>

definition compare_loop ::
  "Image \<Rightarrow> Image \<Rightarrow> nat \<Rightarrow> nat \<Rightarrow> real \<times> ImageDifference list \<times> nat" where
  "compare_loop original rendered width height =
     fold (\<lambda>y. fold (compare_pixel original rendered y) [0..<width]) [0..<height] (0, [], 0)"

text \<open>
  \<open>comparePixelLevel\<close>.  The two \<open>Jimp.read\<close> calls are the arguments: \<open>None\<close> is a read
  that threw, which the \<open>catch\<close> turns into the fallback.  Jimp's \<open>resize\<close> is the
  parameter \<open>resize\<close>.  The last division is written out for a zero divisor: \<open>0 / 0\<close> is
  \<open>NaN\<close> and \<open>Math.max(0, NaN)\<close> is \<open>NaN\<close>; a positive total over \<open>0\<close> is \<open>Infinity\<close>, and
  \<open>Math.max(0, 1 - Infinity)\<close> is \<open>0\<close>.
\<close>

definition comparePixelLevel ::
  "(nat \<Rightarrow> nat \<Rightarrow> Image \<Rightarrow> Image) \<Rightarrow> Image option \<Rightarrow> Image option \<Rightarrow> PixelComparisonResult" where
  "comparePixelLevel resize originalRead renderedRead =
     (case originalRead of
        None \<Rightarrow> \<lparr>similarity = Num (1 / 2), differences = []\<rparr>
      | Some original0 \<Rightarrow>
     (case renderedRead of
        None \<Rightarrow> \<lparr>similarity = Num (1 / 2), differences = []\<rparr>
      | Some rendered0 \<Rightarrow>
          let width = min (getWidth original0) (getWidth rendered0);
              height = min (getHeight original0) (getHeight rendered0);
              original = resize width height original0;
              rendered = resize width height rendered0
          in (case compare_loop original rendered width height of
                (totalDifference, found, pixelCount) \<Rightarrow>
                  let maxPossibleDifference = real pixelCount * 255 * sqrt 3
                  in \<lparr>similarity =
                        (if maxPossibleDifference = 0
                         then (if totalDifference = 0 then NaN else Num 0)
                         else Num (max 0 (1 - totalDifference / maxPossibleDifference))),
                      differences = take 100 found\<rparr>)))"

text \<open>The pixels of a \<open>width\<close> by \<open>height\<close> image in the order the loops visit them: row by
  row, each row left to right.\<close>

definition scan_order :: "nat \<Rightarrow> nat \<Rightarrow> (nat \<times> nat) list" where
  "scan_order width height = concat (map (\<lambda>y. map (\<lambda>x. (x, y)) [0..<width]) [0..<height])"

text \<open>A decoded raster has at least one pixel in each direction.\<close>

definition decoded :: "Image \<Rightarrow> bool" where
  "decoded img = (0 < getWidth img \<and> 0 < getHeight img)"

definition unit_interval :: "jsnum \<Rightarrow> bool" where
  "unit_interval v = (case v of NaN \<Rightarrow> False | Num s \<Rightarrow> 0 \<le> s \<and> s \<le> 1)"

text \<open>Sample images: a solid image, and a two-pixel row.  \<open>same_size\<close> is \<open>resize\<close> to the
  size the image already has, which leaves the pixels as they are.\<close>

definition solid :: "nat \<Rightarrow> nat \<Rightarrow> 32 word \<Rightarrow> Image" where
  "solid w h c = \<lparr>getWidth = w, getHeight = h, getPixelColor = (\<lambda>x y. c)\<rparr>"

definition two_pixels :: "32 word \<Rightarrow> 32 word \<Rightarrow> Image" where
  "two_pixels c0 c1 =
     \<lparr>getWidth = 2, getHeight = 1, getPixelColor = (\<lambda>x y. if x = 0 then c0 else c1)\<rparr>"

definition same_size :: "nat \<Rightarrow> nat \<Rightarrow> Image \<Rightarrow> Image" where
  "same_size w h img = img"

text \<open>Most severe first: severities never increase along the sequence.\<close>

definition most_severe_first :: "ImageDifference list \<Rightarrow> bool" where
  "most_severe_first ds = sorted_wrt (\<lambda>p q. severity p \<ge> severity q) ds"

text \<open>The outcome of a \<open>Jimp.read\<close>: it threw, or it produced a decoded raster.\<close>

definition readable :: "Image option \<Rightarrow> bool" where
  "readable rd = (case rd of None \<Rightarrow> True | Some img \<Rightarrow> decoded img)"

section \<open>Color Extractor (imageAnalyzer.ts)\<close>

text \<open>
  \<open>extractColorPalette\<close> reads the raw buffer that sharp returns for the image resized to
  50 by 50.  \<open>data[i]\<close> past the end is \<open>undefined\<close> (\<open>None\<close>), and arithmetic on it gives
  \<open>NaN\<close> (again \<open>None\<close>), which a template literal prints as \<open>NaN\<close>.
\<close>

definition byte_at :: "8 word list \<Rightarrow> nat \<Rightarrow> nat option" where
  "byte_at data i = (if i < length data then Some (unat (data ! i)) else None)"

definition round16 :: "nat option \<Rightarrow> int option" where
  "round16 v = map_option (\<lambda>c. js_round (real c / 16) * 16) v"

definition show_number :: "int option \<Rightarrow> string" where
  "show_number v = (case v of None \<Rightarrow> ''NaN'' | Some i \<Rightarrow> show_int i)"

definition rgb_string :: "int option \<Rightarrow> int option \<Rightarrow> int option \<Rightarrow> string" where
  "rgb_string roundedR roundedG roundedB =
     ''rgb('' @ show_number roundedR @ '', '' @ show_number roundedG @ '', '' @
     show_number roundedB @ '')''"

text \<open>\<open>colorMap\<close> is a \<open>Map\<close>: an association list in insertion order; \<open>set\<close> on a present
  key keeps its place, on a new key appends.\<close>

definition count_color :: "string \<Rightarrow> (string \<times> nat) list \<Rightarrow> (string \<times> nat) list" where
  "count_color color colorMap =
     AList.update color ((case map_of colorMap color of None \<Rightarrow> 0 | Some n \<Rightarrow> n) + 1) colorMap"

function sample_colors :: "8 word list \<Rightarrow> nat \<Rightarrow> (string \<times> nat) list \<Rightarrow> (string \<times> nat) list" where
  "sample_colors data i colorMap =
     (if i < length data
      then sample_colors data (i + 3)
             (count_color
                (rgb_string (round16 (byte_at data i)) (round16 (byte_at data (i + 1)))
                   (round16 (byte_at data (i + 2))))
                colorMap)
      else colorMap)"
  by pat_completeness auto
termination
  by (relation "measure (\<lambda>(data, i, colorMap). length data - i)") auto

declare sample_colors.simps [simp del]

text \<open>The entries sorted by count, largest first; \<open>Array.prototype.sort\<close> is stable.\<close>

definition sorted_entries :: "8 word list \<Rightarrow> (string \<times> nat) list" where
  "sorted_entries data = sort_key (\<lambda>e. - int (snd e)) (sample_colors data 0 [])"

text \<open>The argument is the raw buffer, or \<open>None\<close> when sharp threw.\<close>

definition extractColorPalette :: "8 word list option \<Rightarrow> string list" where
  "extractColorPalette buffer =
     (case buffer of
        None \<Rightarrow> [''#ffffff'', ''#000000'', ''#f0f0f0'', ''#333333'', ''#007bff'']
      | Some data \<Rightarrow> map fst (take 5 (sorted_entries data)))"

text \<open>A hex colour string: \<open>#\<close> and then hexadecimal digits only.\<close>

definition hex_color :: "string \<Rightarrow> bool" where
  "hex_color s =
     (case s of [] \<Rightarrow> False
      | c # cs \<Rightarrow> c = CHR ''#'' \<and> list_all (\<lambda>d. d \<in> set ''0123456789abcdefABCDEF'') cs)"

text \<open>
  The specification's reading of the palette, for a buffer of three bytes per pixel
  (an image without an alpha channel): the buffer is a sequence of pixels, each channel
  is taken to the nearest multiple of 16 (the upper one at a tie), the colour of a pixel
  is named by the string the extractor writes for it, and the coverage of a colour is
  the number of pixels of that colour over the number of pixels.  \<open>extractColorPalette\<close>
  itself returns no coverage.
\<close>

definition three_channel :: "8 word list \<Rightarrow> bool" where
  "three_channel data = (data \<noteq> [] \<and> length data mod 3 = 0)"

fun pixels :: "8 word list \<Rightarrow> (8 word \<times> 8 word \<times> 8 word) list" where
  "pixels (r # g # b # rest) = (r, g, b) # pixels rest"
| "pixels rest = []"

definition nearest16 :: "8 word \<Rightarrow> int" where
  "nearest16 c = 16 * int ((unat c + 8) div 16)"

definition pixel_string :: "8 word \<times> 8 word \<times> 8 word \<Rightarrow> string" where
  "pixel_string px =
     (case px of (r, g, b) \<Rightarrow>
        ''rgb('' @ show_int (nearest16 r) @ '', '' @ show_int (nearest16 g) @ '', '' @
        show_int (nearest16 b) @ '')'')"

definition sample_strings :: "8 word list \<Rightarrow> string list" where
  "sample_strings data = map pixel_string (pixels data)"

definition sample_count :: "8 word list \<Rightarrow> string \<Rightarrow> nat" where
  "sample_count data c = count_list (sample_strings data) c"

definition coverage :: "8 word list \<Rightarrow> string \<Rightarrow> real" where
  "coverage data c = real (sample_count data c) / real (length (sample_strings data))"

text \<open>A buffer of two colours: 1000 black pixels, then 1500 white ones.\<close>

definition black_then_white :: "8 word list" where
  "black_then_white = replicate 3000 0 @ replicate 4500 255"

section \<open>Brand Identifier (brandDatabase.ts)\<close>

text \<open>
  A JavaScript string is a sequence of UTF-16 code units, here natural numbers; \<open>js\<close>
  embeds an ASCII literal.  The Korean keywords of the registry are written by their code
  units.
\<close>

type_synonym jsstring = "nat list"

definition js :: "string \<Rightarrow> jsstring" where
  "js s = map of_char s"

text \<open>
  \<open>String.prototype.toLowerCase\<close> on the ASCII letters; other code units are left as
  they are.  The engine's case table beyond ASCII is not modelled: the colours compared
  are strings of \<open>#\<close> and hexadecimal digits.
\<close>

definition toLowerCase :: "jsstring \<Rightarrow> jsstring" where
  "toLowerCase s = map (\<lambda>c. if 65 \<le> c \<and> c \<le> 90 then c + 32 else c) s"

text \<open>
  The regular expressions of the registry use two kinds of pattern element: a literal
  character, and \<open>.?\<close> (at most one character that is not a line terminator, taken if
  possible).  All are global; \<open>ignoreCase\<close> is the \<open>i\<close> flag.
\<close>

datatype atom = Lit nat | OptAny

datatype RegExp = RegExp (atoms: "atom list") (ignoreCase: bool)

definition literal :: "jsstring \<Rightarrow> atom list" where
  "literal s = map Lit s"

text \<open>
  Under the \<open>i\<close> flag a character is compared by its upper case, and a character outside
  ASCII never folds to an ASCII one.  Folding is modelled on the ASCII letters, which is
  exact for patterns whose letters are ASCII or have no case (Hangul), as the registry's
  are.
\<close>

definition canonicalize :: "bool \<Rightarrow> nat \<Rightarrow> nat" where
  "canonicalize ic c = (if ic \<and> 97 \<le> c \<and> c \<le> 122 then c - 32 else c)"

definition line_terminator :: "nat \<Rightarrow> bool" where
  "line_terminator c = (c = 10 \<or> c = 13 \<or> c = 8232 \<or> c = 8233)"

text \<open>The length of the match of the pattern at the start of the string, if there is
  one; \<open>.?\<close> first tries to take a character and backtracks to taking none.\<close>

fun match_here :: "bool \<Rightarrow> atom list \<Rightarrow> jsstring \<Rightarrow> nat option" where
  "match_here ic [] s = Some 0"
| "match_here ic (Lit c # p) [] = None"
| "match_here ic (Lit c # p) (t # s) =
     (if canonicalize ic t = canonicalize ic c then map_option Suc (match_here ic p s)
      else None)"
| "match_here ic (OptAny # p) [] = match_here ic p []"
| "match_here ic (OptAny # p) (t # s) =
     (if line_terminator t then match_here ic p (t # s)
      else (case match_here ic p s of
              Some n \<Rightarrow> Some (Suc n)
            | None \<Rightarrow> match_here ic p (t # s)))"

text \<open>
  All matches of a global expression, left to right: after a match the search goes on
  behind it (one character on after an empty match), after a failure one character on.
\<close>

function match_all :: "bool \<Rightarrow> atom list \<Rightarrow> jsstring \<Rightarrow> jsstring list" where
  "match_all ic p [] = (case match_here ic p [] of None \<Rightarrow> [] | Some n \<Rightarrow> [[]])"
| "match_all ic p (t # s) =
     (case match_here ic p (t # s) of
        None \<Rightarrow> match_all ic p s
      | Some n \<Rightarrow>
          take n (t # s) #
          (if n = 0 then match_all ic p s else match_all ic p (drop n (t # s))))"
  by pat_completeness auto
termination
  by (relation "measure (\<lambda>(ic, p, s). length s)") auto

text \<open>\<open>text.match(regex)\<close> for a global \<open>regex\<close>: \<open>null\<close> when nothing matches, else the
  array of the matched substrings.\<close>

definition js_match :: "jsstring \<Rightarrow> RegExp \<Rightarrow> jsstring list option" where
  "js_match txt re =
     (let ms = match_all (ignoreCase re) (atoms re) txt
      in if ms = [] then None else Some ms)"

text \<open>
  \<open>new RegExp(keyword, 'gi')\<close>.  A keyword without pattern metacharacters, as every keyword
  of the registry is, denotes the sequence of its own characters.
\<close>

definition metacharacters :: "nat list" where
  "metacharacters = 92 # js ''^$.*+?()[]{}|''"

definition plain_keyword :: "jsstring \<Rightarrow> bool" where
  "plain_keyword keyword = list_all (\<lambda>c. c \<notin> set metacharacters) keyword"

definition keyword_regexp :: "jsstring \<Rightarrow> RegExp" where
  "keyword_regexp keyword = RegExp (literal keyword) True"

text \<open>
  The three maps of \<open>BrandDatabase\<close>, in insertion order.  Of a \<open>BrandAssets\<close> value
  \<open>detectBrand\<close> reads \<open>colors.primary\<close>, \<open>colors.secondary\<close> and \<open>colors.accent\<close> only.
\<close>

record BrandAssets =
  primary :: jsstring
  secondary :: jsstring
  accent :: jsstring

record BrandDatabase =
  brands :: "(string \<times> BrandAssets) list"
  brandKeywords :: "(string \<times> jsstring list) list"
  brandPatterns :: "(string \<times> RegExp list) list"

text \<open>The database the constructor builds: \<open>initializeBrands\<close>, then
  \<open>setupBrandDetection\<close>.\<close>

definition initial_brands :: "(string \<times> BrandAssets) list" where
  "initial_brands =
     [(''toss'', \<lparr>primary = js ''#0064FF'', secondary = js ''#F5F7FA'', accent = js ''#FF6B35''\<rparr>),
      (''kakao'', \<lparr>primary = js ''#FEE500'', secondary = js ''#191919'', accent = js ''#FF6B35''\<rparr>),
      (''naver'', \<lparr>primary = js ''#03C75A'', secondary = js ''#F7F9FA'', accent = js ''#1EC800''\<rparr>)]"

definition toss_keywords :: "jsstring list" where
  "toss_keywords =
     [js ''toss'',
      [0xD1A0, 0xC2A4],
      js ''viva republica'',
      [0xBE44, 0xBC14, 0xB9AC, 0xD37C, 0xBE14, 0xB9AC, 0xCE74],
      [0xC1A1, 0xAE08],
      [0xAC04, 0xD3B8, 0xACB0, 0xC81C],
      [0xD1A0, 0xC2A4, 0xD398, 0xC774],
      js ''toss pay'',
      [0xD22C, 0xC790],
      [0xC99D, 0xAD8C],
      [0xC8FC, 0xC2DD],
      js ''stock'',
      js ''securities'']"

definition kakao_keywords :: "jsstring list" where
  "kakao_keywords =
     [js ''kakao'',
      [0xCE74, 0xCE74, 0xC624],
      js ''kakaobank'',
      [0xCE74, 0xCE74, 0xC624, 0xBC45, 0xD06C],
      js ''kakaotalk'',
      [0xCE74, 0xCE74, 0xC624, 0xD1A1],
      js ''kakaopay'',
      [0xCE74, 0xCE74, 0xC624, 0xD398, 0xC774]]"

definition naver_keywords :: "jsstring list" where
  "naver_keywords =
     [js ''naver'',
      [0xB124, 0xC774, 0xBC84],
      js ''line'',
      [0xB77C, 0xC778],
      js ''naver pay'',
      [0xB124, 0xC774, 0xBC84, 0xD398, 0xC774],
      js ''webtoon'',
      [0xC6F9, 0xD230]]"

definition toss_patterns :: "RegExp list" where
  "toss_patterns =
     [RegExp (literal (js ''toss'')) True,
      RegExp (literal [0xD1A0, 0xC2A4]) False,
      RegExp (literal (js ''viva'') @ [OptAny] @ literal (js ''republica'')) True,
      RegExp (literal (js ''#0064ff'')) True,
      RegExp (literal (js ''toss'') @ [OptAny] @ literal (js ''face'')) True]"

definition kakao_patterns :: "RegExp list" where
  "kakao_patterns =
     [RegExp (literal (js ''kakao'')) True,
      RegExp (literal [0xCE74, 0xCE74, 0xC624]) False,
      RegExp (literal (js ''#fee500'')) True,
      RegExp (literal (js ''kakaoregular'')) True]"

definition naver_patterns :: "RegExp list" where
  "naver_patterns =
     [RegExp (literal (js ''naver'')) True,
      RegExp (literal [0xB124, 0xC774, 0xBC84]) False,
      RegExp (literal (js ''#03c75a'')) True,
      RegExp (literal (js ''noto'') @ [OptAny] @ literal (js ''sans'')) True]"

definition initial_database :: BrandDatabase where
  "initial_database =
     \<lparr>brands = initial_brands,
      brandKeywords =
        [(''toss'', toss_keywords), (''kakao'', kakao_keywords), (''naver'', naver_keywords)],
      brandPatterns =
        [(''toss'', toss_patterns), (''kakao'', kakao_patterns), (''naver'', naver_patterns)]\<rparr>"

text \<open>The three \<open>forEach\<close> bodies of \<open>detectBrand\<close>, each on the running \<open>score\<close>.\<close>

definition keyword_step :: "jsstring \<Rightarrow> jsstring \<Rightarrow> nat \<Rightarrow> nat" where
  "keyword_step txt keyword score =
     (case js_match txt (keyword_regexp keyword) of
        None \<Rightarrow> score
      | Some matches \<Rightarrow> score + length matches * 10)"

definition pattern_step :: "jsstring \<Rightarrow> RegExp \<Rightarrow> nat \<Rightarrow> nat" where
  "pattern_step txt pattern score =
     (case js_match txt pattern of
        None \<Rightarrow> score
      | Some matches \<Rightarrow> score + length matches * 15)"

definition color_step :: "jsstring list \<Rightarrow> jsstring \<Rightarrow> nat \<Rightarrow> nat" where
  "color_step brandColors color score =
     (if toLowerCase color \<in> set brandColors then score + 25 else score)"

text \<open>The score of one brand: the body of the \<open>for ... of this.brandKeywords\<close> loop up
  to the test \<open>score > 0\<close>.\<close>

definition brand_score ::
  "BrandDatabase \<Rightarrow> jsstring \<Rightarrow> jsstring list \<Rightarrow> string \<Rightarrow> jsstring list \<Rightarrow> nat" where
  "brand_score db txt colorPalette brandName keywords =
     (let score = fold (keyword_step txt) keywords 0;
          patterns = (case map_of (brandPatterns db) brandName of None \<Rightarrow> [] | Some ps \<Rightarrow> ps);
          score = fold (pattern_step txt) patterns score
      in if length colorPalette > 0
         then (case map_of (brands db) brandName of
                 None \<Rightarrow> score
               | Some brandAssets \<Rightarrow>
                   let brandColors =
                     [toLowerCase (primary brandAssets),
                      toLowerCase (secondary brandAssets),
                      toLowerCase (accent brandAssets)]
                   in fold (color_step brandColors) colorPalette score)
         else score)"

text \<open>\<open>scores\<close> is a \<open>Map\<close> in insertion order; a brand enters it only with a positive
  score.\<close>

definition score_entry ::
  "BrandDatabase \<Rightarrow> jsstring \<Rightarrow> jsstring list \<Rightarrow> string \<times> jsstring list \<Rightarrow>
   (string \<times> nat) list \<Rightarrow> (string \<times> nat) list" where
  "score_entry db txt colorPalette entry scores =
     (let score = brand_score db txt colorPalette (fst entry) (snd entry)
      in if score > 0 then AList.update (fst entry) score scores else scores)"

record BrandMatch =
  brand :: "string option"
  confidence :: real

definition detectBrand :: "BrandDatabase \<Rightarrow> jsstring \<Rightarrow> jsstring list \<Rightarrow> BrandMatch" where
  "detectBrand db txt colorPalette =
     (let scores = fold (score_entry db txt colorPalette) (brandKeywords db) []
      in if length scores = 0 then \<lparr>brand = None, confidence = 0\<rparr>
         else
           let sortedScores = sort_key (\<lambda>e. - int (snd e)) scores;
               topBrand = sortedScores ! 0;
               maxScore = 100;
               confidence = min (real (snd topBrand) / maxScore) 1
           in \<lparr>brand = (if confidence > 3 / 10 then Some (fst topBrand) else None),
               confidence = confidence\<rparr>)"

text \<open>
  The specification's reading of the score, written without the functions of the code
  above.  Two characters are the same up to case when they are equal or are the two cases
  of one ASCII letter; two strings match case-insensitively when they are so character by
  character.
\<close>

definition same_letter :: "nat \<Rightarrow> nat \<Rightarrow> bool" where
  "same_letter a b =
     (a = b \<or> (65 \<le> a \<and> a \<le> 90 \<and> b = a + 32) \<or> (65 \<le> b \<and> b \<le> 90 \<and> a = b + 32))"

definition ci_equal :: "jsstring \<Rightarrow> jsstring \<Rightarrow> bool" where
  "ci_equal s t = list_all2 same_letter s t"

definition spec_letter :: "bool \<Rightarrow> nat \<Rightarrow> nat \<Rightarrow> bool" where
  "spec_letter ic t c = (if ic then same_letter t c else t = c)"

text \<open>
  The strings a pattern stands for: a literal stands for its character (up to case under
  the \<open>i\<close> flag), and \<open>.?\<close> for nothing or for one character that is not a line
  terminator.
\<close>

fun spec_lang :: "bool \<Rightarrow> atom list \<Rightarrow> jsstring \<Rightarrow> bool" where
  "spec_lang ic [] s = (s = [])"
| "spec_lang ic (Lit c # p) s =
     (case s of [] \<Rightarrow> False | t # s' \<Rightarrow> spec_letter ic t c \<and> spec_lang ic p s')"
| "spec_lang ic (OptAny # p) s =
     (spec_lang ic p s \<or>
      (case s of [] \<Rightarrow> False | t # s' \<Rightarrow> \<not> line_terminator t \<and> spec_lang ic p s'))"

text \<open>The pattern occurs at the start of a string when it stands for one of its
  prefixes.\<close>

definition spec_occurs :: "bool \<Rightarrow> atom list \<Rightarrow> jsstring \<Rightarrow> bool" where
  "spec_occurs ic p s = list_ex (\<lambda>n. spec_lang ic p (take n s)) [0..<Suc (length s)]"

text \<open>The length of the occurrence at the start of a string: \<open>.?\<close> is greedy, it takes a
  character whenever the rest of the pattern occurs right behind that character.\<close>

fun spec_length :: "bool \<Rightarrow> atom list \<Rightarrow> jsstring \<Rightarrow> nat" where
  "spec_length ic [] s = 0"
| "spec_length ic (Lit c # p) s = Suc (spec_length ic p (tl s))"
| "spec_length ic (OptAny # p) [] = spec_length ic p []"
| "spec_length ic (OptAny # p) (t # s) =
     (if \<not> line_terminator t \<and> spec_occurs ic p s then Suc (spec_length ic p s)
      else spec_length ic p (t # s))"

text \<open>
  The occurrence count of a pattern in a text: going from left to right, the first
  position where the pattern occurs counts once, and the count goes on behind that
  occurrence (one character on when the occurrence is empty).
\<close>

function spec_count :: "bool \<Rightarrow> atom list \<Rightarrow> jsstring \<Rightarrow> nat" where
  "spec_count ic p [] = (if spec_lang ic p [] then 1 else 0)"
| "spec_count ic p (t # s) =
     (if spec_occurs ic p (t # s)
      then Suc (spec_count ic p (drop (spec_length ic p (t # s) - 1) s))
      else spec_count ic p s)"
  by pat_completeness auto
termination
  by (relation "measure (\<lambda>(ic, p, s). length s)") auto

text \<open>A keyword is looked for as it is written, ignoring case; an expression of the
  pattern map with its own flag.\<close>

definition keyword_count :: "jsstring \<Rightarrow> jsstring \<Rightarrow> nat" where
  "keyword_count txt keyword = spec_count True (map Lit keyword) txt"

definition pattern_count :: "jsstring \<Rightarrow> RegExp \<Rightarrow> nat" where
  "pattern_count txt re = spec_count (ignoreCase re) (atoms re) txt"

definition patterns_of :: "BrandDatabase \<Rightarrow> string \<Rightarrow> RegExp list" where
  "patterns_of db brandName =
     (case map_of (brandPatterns db) brandName of None \<Rightarrow> [] | Some ps \<Rightarrow> ps)"

text \<open>The candidate colours that match, case-insensitively, the primary, secondary or
  accent colour of a brand.\<close>

definition matching_colors :: "BrandDatabase \<Rightarrow> string \<Rightarrow> jsstring list \<Rightarrow> nat" where
  "matching_colors db brandName colorPalette =
     (case map_of (brands db) brandName of
        None \<Rightarrow> 0
      | Some assets \<Rightarrow>
          length (filter (\<lambda>color. ci_equal color (primary assets) \<or>
                                  ci_equal color (secondary assets) \<or>
                                  ci_equal color (accent assets))
                    colorPalette))"

definition spec_score ::
  "BrandDatabase \<Rightarrow> jsstring \<Rightarrow> jsstring list \<Rightarrow> string \<Rightarrow> jsstring list \<Rightarrow> nat" where
  "spec_score db txt colorPalette brandName keywords =
     10 * sum_list (map (keyword_count txt) keywords) +
     15 * sum_list (map (pattern_count txt) (patterns_of db brandName)) +
     25 * matching_colors db brandName colorPalette"

text \<open>The largest score of a profile, and the first profile of the registry, in
  insertion order, that reaches it.\<close>

definition spec_top :: "BrandDatabase \<Rightarrow> jsstring \<Rightarrow> jsstring list \<Rightarrow> nat" where
  "spec_top db txt colorPalette =
     foldr max (map (\<lambda>e. spec_score db txt colorPalette (fst e) (snd e)) (brandKeywords db)) 0"

definition spec_winner :: "BrandDatabase \<Rightarrow> jsstring \<Rightarrow> jsstring list \<Rightarrow> string option" where
  "spec_winner db txt colorPalette =
     map_option fst
       (find (\<lambda>e. spec_score db txt colorPalette (fst e) (snd e) = spec_top db txt colorPalette)
          (brandKeywords db))"

text \<open>A registry as the constructor's is: the keys of the keyword map are distinct, a
  \<open>Map\<close> having each key once, and every keyword is plain.\<close>

definition registry_ok :: "BrandDatabase \<Rightarrow> bool" where
  "registry_ok db =
     (distinct (map fst (brandKeywords db)) \<and>
      list_all (\<lambda>e. list_all plain_keyword (snd e)) (brandKeywords db))"

section \<open>Quality Aggregator: results\<close>

lemma weighted_sum_scenario:
  "fold score_step (entries scenario_breakdown) (0, 0) = (347 / 4, 1)"
  by (simp add: entries_def scenario_breakdown_def score_step_def weight_of_def weights_def)

text \<open>
  Claim C1, as stated: for the breakdown \<open>{85, 90, 85, 80, 85, 100}\<close> the overall score is
  \<open>86\<close>.  The weighted sum is \<open>86.75\<close> over a total weight of \<open>1\<close>, which rounds to \<open>87\<close>:
  the stated value is not what \<open>calculateOverallScore\<close> returns.
\<close>

theorem overall_score_scenario_not_86:
  "calculateOverallScore scenario_breakdown \<noteq> 86"
  by (simp add: calculateOverallScore_def weighted_sum_scenario js_round_def)

text \<open>
  Claim C1, amended: for the breakdown \<open>{85, 90, 85, 80, 85, 100}\<close> the overall score,
  the rounded weighted mean under the fixed weights, is \<open>87\<close>.
\<close>

theorem overall_score_scenario:
  "calculateOverallScore scenario_breakdown = 87"
  by (simp add: calculateOverallScore_def weighted_sum_scenario js_round_def)

lemma variance_is_spec:
  "sqrt (variance_of (object_values b)) = spec_stddev b"
  by (simp add: variance_of_def average_of_def object_values_def entries_def spec_stddev_def
      Let_def add.assoc)

lemma half_split_stddev: "spec_stddev half_split_breakdown = 1 / 2"
proof -
  have "spec_stddev half_split_breakdown = sqrt (1 / 4)"
    by (simp add: spec_stddev_def half_split_breakdown_def Let_def power2_eq_square)
  also have "\<dots> = 1 / 2"
    by (simp add: real_sqrt_divide)
  finally show ?thesis .
qed

text \<open>
  Claim C9, as stated (the confidence equals \<open>max(0, 100 - stddev)\<close>), fails: for the
  breakdown \<open>{80, 80, 80, 81, 81, 81}\<close> the standard deviation is \<open>1 / 2\<close>, so the stated
  value is \<open>99.5\<close>, while \<open>calculateConfidence\<close> returns the integer \<open>100\<close>.
\<close>

theorem confidence_not_unrounded:
  "calculateConfidence half_split_breakdown = 100 \<and>
   spec_confidence half_split_breakdown = 199 / 2 \<and>
   real_of_int (calculateConfidence half_split_breakdown) \<noteq> spec_confidence half_split_breakdown"
  by (simp add: calculateConfidence_def variance_is_spec half_split_stddev spec_confidence_def
      js_round_def Let_def)

text \<open>
  Claim C9, amended: for every six-score breakdown the confidence is
  \<open>max(0, 100 - stddev)\<close> rounded to the nearest integer, where \<open>stddev\<close> is the population
  standard deviation of the six sub-scores; when all six sub-scores are equal it is exactly
  \<open>100\<close>.
\<close>

theorem confidence_rounded:
  "calculateConfidence b = js_round (spec_confidence b) \<and>
   calculateConfidence \<lparr>visualSimilarity = s, layoutAccuracy = s, colorMatching = s,
      typographyMatch = s, interactionElements = s, brandConsistency = s\<rparr> = 100"
  by (simp add: calculateConfidence_def variance_is_spec spec_confidence_def Let_def
      spec_stddev_def js_round_def)

section \<open>Pixel Comparator: results\<close>

lemma channel_sq_bound:
  "(real (unat (c2 :: 8 word)) - real (unat (c1 :: 8 word))) ^ 2 \<le> 255 ^ 2"
proof -
  have "unat c1 < 2 ^ LENGTH(8)" "unat c2 < 2 ^ LENGTH(8)"
    by (rule unsigned_less)+
  then have "unat c1 < 256" "unat c2 < 256"
    by simp_all
  then have "\<bar>real (unat c2) - real (unat c1)\<bar> \<le> 255"
    by linarith
  then show ?thesis
    using abs_le_square_iff[of "real (unat c2) - real (unat c1)" 255] by simp
qed

lemma color_diff_nonneg: "0 \<le> color_diff c1 c2"
  by (simp add: color_diff_def)

lemma color_diff_bound: "color_diff c1 c2 \<le> 255 * sqrt 3"
proof -
  have "color_diff c1 c2 \<le> sqrt (3 * 255 ^ 2)"
    unfolding color_diff_def
    using channel_sq_bound[of "rgba_r c2" "rgba_r c1"]
      channel_sq_bound[of "rgba_g c2" "rgba_g c1"]
      channel_sq_bound[of "rgba_b c2" "rgba_b c1"]
    by (intro real_sqrt_le_mono) linarith
  also have "\<dots> = sqrt 3 * sqrt (255 ^ 2)"
    by (rule real_sqrt_mult)
  also have "\<dots> = 255 * sqrt 3"
    by simp
  finally show ?thesis .
qed

lemma color_diff_same: "color_diff c c = 0"
  by (simp add: color_diff_def)

lemma pixel_diff_same: "pixel_diff img img x y = 0"
  by (simp add: pixel_diff_def color_diff_same)

lemma pixel_diff_nonneg: "0 \<le> pixel_diff a b x y"
  by (simp add: pixel_diff_def color_diff_nonneg)

lemma pixel_diff_bound: "pixel_diff a b x y \<le> 255 * sqrt 3"
  by (simp add: pixel_diff_def color_diff_bound)

lemma fold_rows:
  "fold (\<lambda>y. fold (g y) xs) ys st =
   fold (\<lambda>(x, y). g y x) (concat (map (\<lambda>y. map (\<lambda>x. (x, y)) xs) ys)) st"
  by (induction ys arbitrary: st) (simp_all add: fold_map comp_def)

lemma compare_loop_scan:
  "compare_loop a b w h = fold (\<lambda>(x, y). compare_pixel a b y x) (scan_order w h) (0, [], 0)"
  by (simp add: compare_loop_def scan_order_def fold_rows)

lemma fold_compare_pixel:
  "length f \<le> 100 \<Longrightarrow>
   fold (\<lambda>(x, y). compare_pixel a b y x) cs (t, f, n) =
     (t + sum_list (map (\<lambda>(x, y). pixel_diff a b x y) cs),
      take 100 (f @ map (\<lambda>(x, y). difference_at x y (pixel_diff a b x y))
                       (filter (\<lambda>(x, y). pixel_diff a b x y > threshold) cs)),
      n + length cs)"
proof (induction cs arbitrary: t f n)
  case Nil
  then show ?case by simp
next
  case (Cons c cs)
  obtain x y where c: "c = (x, y)" by (cases c)
  let ?d = "pixel_diff a b x y"
  let ?f = "if ?d > threshold \<and> length f < 100 then f @ [difference_at x y ?d] else f"
  have len: "length ?f \<le> 100"
    using Cons.prems by simp
  have step: "compare_pixel a b y x (t, f, n) = (t + ?d, ?f, n + 1)"
    by (simp add: compare_pixel_def Let_def)
  have app: "take 100 (?f @ zs) =
      take 100 (f @ (if ?d > threshold then [difference_at x y ?d] else []) @ zs)" for zs
    using Cons.prems by (cases "length f < 100") auto
  show ?case
    using Cons.IH[OF len, of "t + ?d" "n + 1"]
    by (simp add: c step add.assoc app del: take_append)
qed

lemma length_scan_order: "length (scan_order w h) = w * h"
  by (induction h) (simp_all add: scan_order_def)


lemma compare_loop_result:
  "compare_loop a b w h =
     (sum_list (map (\<lambda>(x, y). pixel_diff a b x y) (scan_order w h)),
      take 100 (map (\<lambda>(x, y). difference_at x y (pixel_diff a b x y))
                  (filter (\<lambda>(x, y). pixel_diff a b x y > threshold) (scan_order w h))),
      w * h)"
  by (simp add: compare_loop_scan fold_compare_pixel length_scan_order)

lemma compare_decoded:
  "comparePixelLevel rs (Some original0) (Some rendered0) =
     (let width = min (getWidth original0) (getWidth rendered0);
          height = min (getHeight original0) (getHeight rendered0);
          original = rs width height original0;
          rendered = rs width height rendered0;
          totalDifference = sum_list (map (\<lambda>(x, y). pixel_diff original rendered x y)
                                       (scan_order width height));
          maxPossibleDifference = real (width * height) * 255 * sqrt 3
      in \<lparr>similarity =
            (if maxPossibleDifference = 0
             then (if totalDifference = 0 then NaN else Num 0)
             else Num (max 0 (1 - totalDifference / maxPossibleDifference))),
          differences =
            take 100 (map (\<lambda>(x, y). difference_at x y (pixel_diff original rendered x y))
                        (filter (\<lambda>(x, y). pixel_diff original rendered x y > threshold)
                           (scan_order width height)))\<rparr>)"
  unfolding comparePixelLevel_def Let_def compare_loop_result by simp

lemma sum_pixel_diff_nonneg: "0 \<le> sum_list (map (\<lambda>(x, y). pixel_diff a b x y) cs)"
  by (induction cs) (auto simp: pixel_diff_nonneg)

lemma sum_pixel_diff_bound:
  "sum_list (map (\<lambda>(x, y). pixel_diff a b x y) cs) \<le> real (length cs) * (255 * sqrt 3)"
proof (induction cs)
  case Nil
  then show ?case by simp
next
  case (Cons c cs)
  obtain x y where c: "c = (x, y)" by (cases c)
  show ?case
    using Cons.IH pixel_diff_bound[of a b x y] by (simp add: c algebra_simps)
qed

text \<open>
  What the loops return: the first 100 pixels, row by row and left to right, whose
  distance exceeds the threshold, each as a region of one pixel.
\<close>

lemma differences_in_scan_order:
  "differences (comparePixelLevel rs (Some original0) (Some rendered0)) =
     (let width = min (getWidth original0) (getWidth rendered0);
          height = min (getHeight original0) (getHeight rendered0);
          original = rs width height original0;
          rendered = rs width height rendered0
      in take 100 (map (\<lambda>(x, y). difference_at x y (pixel_diff original rendered x y))
                     (filter (\<lambda>(x, y). pixel_diff original rendered x y > threshold)
                        (scan_order width height))))"
  by (simp add: compare_decoded Let_def)

lemma sqrt_1600: "sqrt 1600 = 40"
  using real_sqrt_abs[of 40] by simp

lemma sqrt_65025: "sqrt 65025 = 255"
  using real_sqrt_abs[of 255] by simp

lemma scan_order_2_1: "scan_order 2 (Suc 0) = [(0, 0), (Suc 0, 0)]"
  by (simp add: scan_order_def upt_rec)

lemma two_pixels_diff_0:
  "pixel_diff (two_pixels 0x000000FF 0x000000FF) (two_pixels 0x280000FF 0xFF0000FF) 0 0 = 40"
  by (simp add: pixel_diff_def two_pixels_def color_diff_def intToRGBA_def sqrt_1600)

lemma two_pixels_diff_1:
  "pixel_diff (two_pixels 0x000000FF 0x000000FF) (two_pixels 0x280000FF 0xFF0000FF) (Suc 0) 0 = 255"
  by (simp add: pixel_diff_def two_pixels_def color_diff_def intToRGBA_def sqrt_65025)

lemma two_pixels_differences:
  "differences (comparePixelLevel same_size
      (Some (two_pixels 0x000000FF 0x000000FF)) (Some (two_pixels 0x280000FF 0xFF0000FF)))
   = [difference_at 0 0 40, difference_at 1 0 255]"
proof -
  have dims: "getWidth (two_pixels c0 c1) = 2" "getHeight (two_pixels c0 c1) = 1" for c0 c1
    by (simp_all add: two_pixels_def)
  show ?thesis
    by (simp add: compare_decoded Let_def dims same_size_def scan_order_2_1
        two_pixels_diff_0 two_pixels_diff_1 threshold_def)
qed

text \<open>
  Claim C2 (the returned regions are ordered most severe first) is what the
  specification and the comment on the final \<open>slice\<close> ask for, and \<open>comparePixelLevel\<close>
  does not meet it, for it never sorts: against a black row of two pixels, a row whose
  first pixel is off by 40 in red and whose second is off by 255 gives the severities
  \<open>40 / 255\<close> and then \<open>1\<close>.
\<close>

theorem differences_not_sorted:
  "map severity (differences (comparePixelLevel same_size
      (Some (two_pixels 0x000000FF 0x000000FF)) (Some (two_pixels 0x280000FF 0xFF0000FF))))
     = [40 / 255, 1] \<and>
   \<not> most_severe_first (differences (comparePixelLevel same_size
      (Some (two_pixels 0x000000FF 0x000000FF)) (Some (two_pixels 0x280000FF 0xFF0000FF))))"
  by (simp add: two_pixels_differences difference_at_def most_severe_first_def)

text \<open>
  Claim C7: comparing a decoded image to an exact copy of itself yields similarity exactly
  \<open>1\<close> and no difference regions, whatever \<open>resize\<close> does; in particular two 100 by 100
  solid-white images compare to similarity \<open>1\<close> with no regions.
\<close>

theorem self_comparison:
  "(decoded img \<longrightarrow>
      comparePixelLevel rs (Some img) (Some img) = \<lparr>similarity = Num 1, differences = []\<rparr>) \<and>
   comparePixelLevel rs (Some (solid 100 100 0xFFFFFFFF)) (Some (solid 100 100 0xFFFFFFFF)) =
     \<lparr>similarity = Num 1, differences = []\<rparr>"
proof -
  have zero: "sum_list (map (\<lambda>(x, y). pixel_diff a a x y) cs) = 0" for a cs
    by (induction cs) (auto simp: pixel_diff_same)
  have general: "comparePixelLevel rs (Some a) (Some a) = \<lparr>similarity = Num 1, differences = []\<rparr>"
    if "decoded a" for a
    using that
    by (simp add: compare_decoded Let_def zero pixel_diff_same threshold_def decoded_def)
  have "decoded (solid 100 100 0xFFFFFFFF)"
    by (simp add: decoded_def solid_def)
  with general show ?thesis by blast
qed

text \<open>
  The theorem at a solid 3 by 2 image.
\<close>

theorem self_comparison_witness:
  "decoded (solid 3 2 0x336699FF) \<and>
   comparePixelLevel same_size (Some (solid 3 2 0x336699FF)) (Some (solid 3 2 0x336699FF)) =
     \<lparr>similarity = Num 1, differences = []\<rparr>"
  using self_comparison[of "solid 3 2 0x336699FF" same_size]
  by (simp add: decoded_def solid_def)

text \<open>
  Claim C8: for every pair of inputs, each a failed read or a decoded raster, the
  similarity lies in \<open>[0, 1]\<close> and at most 100 difference regions are returned.
\<close>

theorem similarity_and_count_bounds:
  assumes "readable originalRead" and "readable renderedRead"
  shows "unit_interval (similarity (comparePixelLevel rs originalRead renderedRead)) \<and>
         length (differences (comparePixelLevel rs originalRead renderedRead)) \<le> 100"
proof (cases originalRead)
  case None
  then show ?thesis by (simp add: comparePixelLevel_def unit_interval_def)
next
  case a: (Some original0)
  show ?thesis
  proof (cases renderedRead)
    case None
    then show ?thesis by (simp add: comparePixelLevel_def unit_interval_def a)
  next
    case b: (Some rendered0)
    from assms have pos: "0 < min (getWidth original0) (getWidth rendered0)"
        "0 < min (getHeight original0) (getHeight rendered0)"
      by (simp_all add: readable_def decoded_def a b)
    define w where "w = min (getWidth original0) (getWidth rendered0)"
    define h where "h = min (getHeight original0) (getHeight rendered0)"
    define total where
      "total = sum_list (map (\<lambda>(x, y). pixel_diff (rs w h original0) (rs w h rendered0) x y)
                           (scan_order w h))"
    define maxd where "maxd = real (w * h) * 255 * sqrt 3"
    have maxd_pos: "0 < maxd"
      using pos by (simp add: maxd_def w_def h_def)
    have "0 \<le> total"
      unfolding total_def by (rule sum_pixel_diff_nonneg)
    moreover have "total \<le> maxd"
      using sum_pixel_diff_bound[of "rs w h original0" "rs w h rendered0" "scan_order w h"]
      by (simp add: total_def maxd_def length_scan_order mult.assoc)
    ultimately have ratio: "0 \<le> total / maxd" "total / maxd \<le> 1"
      using maxd_pos by simp_all
    have "similarity (comparePixelLevel rs originalRead renderedRead) =
        (if maxd = 0 then (if total = 0 then NaN else Num 0)
         else Num (max 0 (1 - total / maxd)))"
      unfolding a b compare_decoded Let_def total_def maxd_def w_def h_def by simp
    with maxd_pos have "similarity (comparePixelLevel rs originalRead renderedRead) =
        Num (max 0 (1 - total / maxd))"
      by simp
    moreover have "length (differences (comparePixelLevel rs originalRead renderedRead)) \<le> 100"
      by (simp add: a b compare_decoded Let_def)
    ultimately show ?thesis
      using ratio by (simp add: unit_interval_def)
  qed
qed

text \<open>
  The theorem at two two-pixel rows, and at a failed read of the original.
\<close>

theorem similarity_and_count_bounds_witness:
  "readable (Some (two_pixels 0x000000FF 0x000000FF)) \<and>
   readable (Some (two_pixels 0x280000FF 0xFF0000FF)) \<and>
   readable None \<and>
   unit_interval (similarity (comparePixelLevel same_size
      (Some (two_pixels 0x000000FF 0x000000FF)) (Some (two_pixels 0x280000FF 0xFF0000FF)))) \<and>
   length (differences (comparePixelLevel same_size
      (Some (two_pixels 0x000000FF 0x000000FF)) (Some (two_pixels 0x280000FF 0xFF0000FF)))) \<le> 100 \<and>
   unit_interval (similarity (comparePixelLevel same_size None
      (Some (two_pixels 0x280000FF 0xFF0000FF))))"
proof -
  have r1: "readable (Some (two_pixels 0x000000FF 0x000000FF))"
    by (simp add: readable_def decoded_def two_pixels_def)
  have r2: "readable (Some (two_pixels 0x280000FF 0xFF0000FF))"
    by (simp add: readable_def decoded_def two_pixels_def)
  have r3: "readable None"
    by (simp add: readable_def)
  show ?thesis
    using similarity_and_count_bounds[OF r1 r2, of same_size]
      similarity_and_count_bounds[OF r3 r2, of same_size] r1 r2 r3
    by simp
qed

section \<open>Color Extractor: results\<close>

lemma round16_byte: "round16 (Some c) = Some (int ((c + 8) div 16 * 16))"
proof -
  have "real c / 16 + 1 / 2 = real (c + 8) / real 16"
    by simp
  then have "js_round (real c / 16) = int ((c + 8) div 16)"
    unfolding js_round_def by (simp only: floor_divide_of_nat_eq)
  then show ?thesis
    by (simp add: round16_def)
qed

lemma rgb_string_pixel:
  "rgb_string (round16 (Some (unat r))) (round16 (Some (unat g))) (round16 (Some (unat b))) =
   pixel_string (r, g, b)"
  by (simp add: rgb_string_def round16_byte show_number_def pixel_string_def nearest16_def
      mult.commute)

lemma three_channel_cases:
  "length data = 3 * Suc n \<Longrightarrow> \<exists>r g b rest. data = r # g # b # rest \<and> length rest = 3 * n"
  for data :: "8 word list"
  by (cases data rule: pixels.cases) auto

lemma sample_colors_pixels:
  "length data = 3 * n \<Longrightarrow>
   sample_colors (pre @ data) (length pre) m = fold count_color (sample_strings data) m"
proof (induction n arbitrary: pre data m)
  case 0
  then show ?case
    by (subst sample_colors.simps) (simp add: sample_strings_def)
next
  case (Suc n)
  from three_channel_cases[OF Suc.prems] obtain r g b rest
    where data: "data = r # g # b # rest" and rest: "length rest = 3 * n"
    by blast
  have bytes: "byte_at (pre @ r # g # b # rest) (length pre) = Some (unat r)"
      "byte_at (pre @ r # g # b # rest) (Suc (length pre)) = Some (unat g)"
      "byte_at (pre @ r # g # b # rest) (Suc (Suc (length pre))) = Some (unat b)"
    by (simp_all add: byte_at_def nth_append)
  have "sample_colors (pre @ data) (length pre) m =
      sample_colors (pre @ data) (length pre + 3) (count_color (pixel_string (r, g, b)) m)"
    by (subst sample_colors.simps) (simp add: data bytes rgb_string_pixel)
  also have "\<dots> = sample_colors ((pre @ [r, g, b]) @ rest) (length (pre @ [r, g, b]))
        (count_color (pixel_string (r, g, b)) m)"
    by (simp add: data numeral_3_eq_3)
  also have "\<dots> = fold count_color (sample_strings rest) (count_color (pixel_string (r, g, b)) m)"
    using rest by (rule Suc.IH)
  finally show ?case
    by (simp add: data sample_strings_def)
qed

lemma sample_colors_tally:
  "length data mod 3 = 0 \<Longrightarrow>
   sample_colors data 0 [] = fold count_color (sample_strings data) []"
proof -
  assume "length data mod 3 = 0"
  then obtain n where "length data = 3 * n"
    by (auto simp: mod_eq_0_iff_dvd elim: dvdE)
  from sample_colors_pixels[OF this, of "[]" "[]"] show ?thesis
    by simp
qed

lemma map_of_count_color:
  "map_of (count_color c m) =
     (map_of m)(c \<mapsto> Suc (case map_of m c of None \<Rightarrow> 0 | Some k \<Rightarrow> k))"
  by (simp add: count_color_def update_conv')

lemma distinct_count_color:
  "distinct (map fst m) \<Longrightarrow> distinct (map fst (count_color c m))"
  by (simp add: count_color_def distinct_update)

lemma distinct_tally:
  "distinct (map fst m) \<Longrightarrow> distinct (map fst (fold count_color xs m))"
  by (induction xs arbitrary: m) (simp_all add: distinct_count_color)

lemma map_of_tally:
  "map_of (fold count_color xs m) c =
     (case map_of m c of
        None \<Rightarrow> if c \<in> set xs then Some (count_list xs c) else None
      | Some k \<Rightarrow> Some (k + count_list xs c))"
proof (induction xs arbitrary: m)
  case Nil
  then show ?case by (simp split: option.splits)
next
  case (Cons x xs)
  show ?case
    by (simp add: Cons.IH map_of_count_color split: option.splits)
qed

lemma tally_entries:
  "set (fold count_color xs []) = (\<lambda>c. (c, count_list xs c)) ` set xs"
proof -
  let ?t = "fold count_color xs []"
  have d: "distinct (map fst ?t)"
    by (rule distinct_tally) simp
  have m: "map_of ?t c = (if c \<in> set xs then Some (count_list xs c) else None)" for c
    by (simp add: map_of_tally)
  show ?thesis
  proof (intro set_eqI iffI)
    fix e assume e: "e \<in> set ?t"
    obtain c k where ck: "e = (c, k)" by (cases e)
    with e d have "map_of ?t c = Some k"
      by (intro map_of_is_SomeI) simp_all
    then show "e \<in> (\<lambda>c. (c, count_list xs c)) ` set xs"
      by (auto simp: ck m split: if_splits)
  next
    fix e assume "e \<in> (\<lambda>c. (c, count_list xs c)) ` set xs"
    then obtain c where "c \<in> set xs" "e = (c, count_list xs c)"
      by blast
    then show "e \<in> set ?t"
      using m[of c] by (auto dest: map_of_SomeD)
  qed
qed

lemma count_color_sum:
  "sum_list (map snd (count_color c m)) = Suc (sum_list (map snd m))"
  unfolding count_color_def
  by (induction m) (auto split: option.splits)

lemma tally_sum:
  "sum_list (map snd (fold count_color xs m)) = sum_list (map snd m) + length xs"
  by (induction xs arbitrary: m) (simp_all add: count_color_sum)

lemma sum_insort_key:
  "sum_list (map g (insort_key f x xs)) = g x + sum_list (map g xs)"
  for g :: "'a \<Rightarrow> nat"
  by (induction xs) simp_all

lemma sum_sort_key:
  "sum_list (map g (sort_key f xs)) = sum_list (map g xs)"
  for g :: "'a \<Rightarrow> nat"
  by (induction xs) (simp_all add: sum_insort_key)

lemma sum_take_le:
  "sum_list (map g (take k xs)) \<le> sum_list (map g xs)"
  for g :: "'a \<Rightarrow> nat"
proof -
  have "sum_list (map g xs) = sum_list (map g (take k xs)) + sum_list (map g (drop k xs))"
    by (metis append_take_drop_id map_append sum_list_append)
  then show ?thesis by simp
qed

lemma distinct_map_insort:
  "distinct (map g (insort_key f x xs)) = (g x \<notin> g ` set xs \<and> distinct (map g xs))"
  by (induction xs) (auto simp: set_insort_key)

lemma distinct_map_sort:
  "distinct (map g (sort_key f xs)) = distinct (map g xs)"
  by (induction xs) (simp_all add: distinct_map_insort)

lemma pixels_nonempty: "three_channel data \<Longrightarrow> sample_strings data \<noteq> []"
  by (cases data rule: pixels.cases) (auto simp: three_channel_def sample_strings_def)

lemma sorted_entries_tally:
  "three_channel data \<Longrightarrow>
   sorted_entries data = sort_key (\<lambda>e. - int (snd e)) (fold count_color (sample_strings data) [])"
  by (simp add: sorted_entries_def three_channel_def sample_colors_tally)

lemma sorted_entries_set:
  "three_channel data \<Longrightarrow>
   set (sorted_entries data) = (\<lambda>c. (c, sample_count data c)) ` set (sample_strings data)"
  by (simp add: sorted_entries_tally tally_entries sample_count_def)

lemma sorted_entries_distinct:
  "three_channel data \<Longrightarrow> distinct (map fst (sorted_entries data))"
  by (simp add: sorted_entries_tally distinct_map_sort distinct_tally)

lemma sorted_entries_sum:
  "three_channel data \<Longrightarrow>
   sum_list (map snd (sorted_entries data)) = length (sample_strings data)"
  by (simp add: sorted_entries_tally sum_sort_key tally_sum)

lemma sorted_entries_descending:
  "sorted_wrt (\<lambda>p q. snd q \<le> snd p) (sorted_entries data)"
proof -
  have "sorted (map (\<lambda>e. - int (snd e)) (sorted_entries data))"
    unfolding sorted_entries_def by (rule sorted_sort_key)
  then show ?thesis
    by (simp add: sorted_wrt_map)
qed

lemma sorted_entries_length:
  "three_channel data \<Longrightarrow>
   length (sorted_entries data) = length (remdups (sample_strings data))"
proof -
  assume tc: "three_channel data"
  have "card (set (map fst (sorted_entries data))) = length (map fst (sorted_entries data))"
    using sorted_entries_distinct[OF tc] by (rule distinct_card)
  then have "length (sorted_entries data) = card (set (map fst (sorted_entries data)))"
    by simp
  also have "set (map fst (sorted_entries data)) = set (sample_strings data)"
    by (auto simp: sorted_entries_set[OF tc] image_iff)
  finally show ?thesis
    by (simp add: length_remdups_card_conv)
qed

lemma sorted_entries_snd:
  "three_channel data \<Longrightarrow> e \<in> set (sorted_entries data) \<Longrightarrow>
   fst e \<in> set (sample_strings data) \<and> snd e = sample_count data (fst e)"
  by (auto simp: sorted_entries_set)


text \<open>
  Claim C3, amended: for every decoded buffer of three bytes per pixel, the Color
  Extractor returns between 1 and 5 distinct colour strings, as many as there are
  colours when these are fewer than 5; each names the quantized colour of at least one
  sampled pixel; they stand in the order of their sample counts, largest first, and no
  colour left out is more frequent than one returned.  No coverage is returned; the
  coverage \<open>count / totalSamples\<close> of each returned colour lies in \<open>(0, 1]\<close>, and the
  coverages of the returned colours sum to at most \<open>1\<close>.
\<close>

theorem palette_most_frequent:
  assumes "three_channel data"
  shows "length (extractColorPalette (Some data)) = min 5 (length (remdups (sample_strings data))) \<and>
         1 \<le> length (extractColorPalette (Some data)) \<and>
         length (extractColorPalette (Some data)) \<le> 5 \<and>
         distinct (extractColorPalette (Some data)) \<and>
         list_all (\<lambda>c. c \<in> set (sample_strings data)) (extractColorPalette (Some data)) \<and>
         sorted_wrt (\<lambda>c d. sample_count data d \<le> sample_count data c)
           (extractColorPalette (Some data)) \<and>
         list_all (\<lambda>c. c \<in> set (extractColorPalette (Some data)) \<or>
                        list_all (\<lambda>d. sample_count data c \<le> sample_count data d)
                          (extractColorPalette (Some data)))
           (sample_strings data) \<and>
         list_all (\<lambda>c. 0 < coverage data c \<and> coverage data c \<le> 1)
           (extractColorPalette (Some data)) \<and>
         sum_list (map (coverage data) (extractColorPalette (Some data))) \<le> 1"
proof -
  let ?S = "sample_strings data"
  let ?E = "sorted_entries data"
  let ?top = "take 5 ?E"
  let ?pal = "extractColorPalette (Some data)"
  note tc = assms
  have pal: "?pal = map fst ?top"
    by (simp add: extractColorPalette_def)
  have S_ne: "?S \<noteq> []"
    using tc by (rule pixels_nonempty)
  have len_E: "length ?E = length (remdups ?S)"
    using tc by (rule sorted_entries_length)
  have "remdups ?S \<noteq> []"
    using S_ne by simp
  then have E_pos: "0 < length ?E"
    using len_E by simp
  have len: "length ?pal = min 5 (length (remdups ?S))"
    by (simp add: pal len_E min.commute)
  have "Suc 0 \<le> length ?E"
    using E_pos by linarith
  then have len1: "1 \<le> length ?pal" and len5: "length ?pal \<le> 5"
    by (simp_all add: pal)
  have dist: "distinct ?pal"
    using sorted_entries_distinct[OF tc]
    by (simp add: pal take_map [symmetric] distinct_take)
  have top_in: "e \<in> set ?E" if "e \<in> set ?top" for e
    using that by (rule in_set_takeD)
  have entry: "fst e \<in> set ?S \<and> snd e = sample_count data (fst e)" if "e \<in> set ?E" for e
    using tc that by (rule sorted_entries_snd)
  have members: "list_all (\<lambda>c. c \<in> set ?S) ?pal"
    using entry top_in by (auto simp: pal list_all_iff)
  have desc: "sorted_wrt (\<lambda>p q. snd q \<le> snd p) ?E"
    by (rule sorted_entries_descending)
  then have "sorted_wrt (\<lambda>p q. snd q \<le> snd p) ?top"
    by (rule sorted_wrt_take)
  then have "sorted_wrt (\<lambda>p q. sample_count data (fst q) \<le> sample_count data (fst p)) ?top"
    by (rule sorted_wrt_mono_rel[rotated]) (use entry top_in in auto)
  then have order: "sorted_wrt (\<lambda>c d. sample_count data d \<le> sample_count data c) ?pal"
    by (simp add: pal sorted_wrt_map)
  have split: "sorted_wrt (\<lambda>p q. snd q \<le> snd p) (?top @ drop 5 ?E)"
    using desc by simp
  have best: "list_all (\<lambda>c. c \<in> set ?pal \<or>
      list_all (\<lambda>d. sample_count data c \<le> sample_count data d) ?pal) ?S"
    unfolding list_all_iff
  proof
    fix c assume "c \<in> set ?S"
    then have "(c, sample_count data c) \<in> set ?E"
      by (auto simp: sorted_entries_set[OF tc])
    then have "(c, sample_count data c) \<in> set ?top \<or> (c, sample_count data c) \<in> set (drop 5 ?E)"
      by (metis Un_iff append_take_drop_id set_append)
    then show "c \<in> set ?pal \<or> (\<forall>d \<in> set ?pal. sample_count data c \<le> sample_count data d)"
    proof
      assume "(c, sample_count data c) \<in> set ?top"
      then have "c \<in> set ?pal"
        by (force simp: pal)
      then show ?thesis ..
    next
      assume rest: "(c, sample_count data c) \<in> set (drop 5 ?E)"
      have "sample_count data c \<le> sample_count data d" if "d \<in> set ?pal" for d
      proof -
        from that obtain e where e: "e \<in> set ?top" "d = fst e"
          by (auto simp: pal)
        from split e(1) rest have "snd (c, sample_count data c) \<le> snd e"
          unfolding sorted_wrt_append by blast
        with entry[OF top_in[OF e(1)]] e(2) show ?thesis
          by simp
      qed
      then show ?thesis by blast
    qed
  qed
  have S_pos: "0 < length ?S"
    using S_ne by simp
  have cov: "list_all (\<lambda>c. 0 < coverage data c \<and> coverage data c \<le> 1) ?pal"
    unfolding list_all_iff
  proof
    fix c assume "c \<in> set ?pal"
    with members have "c \<in> set ?S"
      by (simp add: list_all_iff)
    then have "sample_count data c \<noteq> 0"
      by (simp add: sample_count_def count_list_0_iff)
    then have "0 < sample_count data c"
      by simp
    moreover have "sample_count data c \<le> length ?S"
      unfolding sample_count_def by (rule count_le_length)
    ultimately show "0 < coverage data c \<and> coverage data c \<le> 1"
      using S_pos by (simp add: coverage_def)
  qed
  have "map (sample_count data) ?pal = map snd ?top"
    using entry top_in by (simp add: pal)
  then have "sum_list (map (sample_count data) ?pal) \<le> length ?S"
    using sum_take_le[of snd 5 ?E] by (simp add: sorted_entries_sum[OF tc])
  moreover have "sum_list (map (coverage data) xs) =
      real (sum_list (map (sample_count data) xs)) / real (length ?S)" for xs
    by (induction xs) (simp_all add: coverage_def add_divide_distrib)
  ultimately have total: "sum_list (map (coverage data) ?pal) \<le> 1"
    using S_pos by simp
  from len len1 len5 dist members order best cov total show ?thesis
    by blast
qed


lemma pixels_replicate:
  "pixels (replicate (3 * k) v @ rest) = replicate k (v, v, v) @ pixels rest"
proof (induction k)
  case 0
  then show ?case by simp
next
  case (Suc k)
  have "replicate (3 * Suc k) v = v # v # v # replicate (3 * k) v"
    by (simp add: numeral_3_eq_3)
  with Suc show ?case by simp
qed

lemma sample_strings_replicate:
  "sample_strings (replicate (3 * k) v @ rest) =
     replicate k (pixel_string (v, v, v)) @ sample_strings rest"
  by (simp add: sample_strings_def pixels_replicate)

lemma count_color_new:
  "c \<notin> fst ` set m \<Longrightarrow> count_color c m = m @ [(c, Suc 0)]"
proof -
  assume new: "c \<notin> fst ` set m"
  then have "map_of m c = None"
    by (simp add: map_of_eq_None_iff)
  moreover have "AList.update c v m = m @ [(c, v)]" for v
    using new by (induction m) auto
  ultimately show ?thesis
    by (simp add: count_color_def)
qed

lemma count_color_last:
  "c \<notin> fst ` set m \<Longrightarrow> count_color c (m @ [(c, j)]) = m @ [(c, Suc j)]"
proof -
  assume new: "c \<notin> fst ` set m"
  then have "map_of (m @ [(c, j)]) c = Some j"
    by (induction m) auto
  moreover have "AList.update c v (m @ [(c, j)]) = m @ [(c, v)]" for v
    using new by (induction m) auto
  ultimately show ?thesis
    by (simp add: count_color_def)
qed

lemma tally_replicate_last:
  "c \<notin> fst ` set m \<Longrightarrow>
   fold count_color (replicate k c) (m @ [(c, j)]) = m @ [(c, j + k)]"
  by (induction k arbitrary: j) (simp_all add: count_color_last)

lemma tally_replicate_new:
  "c \<notin> fst ` set m \<Longrightarrow> 0 < k \<Longrightarrow> fold count_color (replicate k c) m = m @ [(c, k)]"
  by (cases k) (simp_all add: count_color_new tally_replicate_last del: fold_replicate)

lemma count_list_replicate: "count_list (replicate k x) y = (if x = y then k else 0)"
  by (induction k) auto

lemma pixel_string_black: "pixel_string (0, 0, 0) = ''rgb(0, 0, 0)''"
  by (simp add: pixel_string_def nearest16_def show_int_def show_nat.simps)

lemma pixel_string_white: "pixel_string (255, 255, 255) = ''rgb(256, 256, 256)''"
  by (simp add: pixel_string_def nearest16_def show_int_def show_nat.simps)

lemma palette_uniform:
  "0 < n \<Longrightarrow> extractColorPalette (Some (replicate (3 * n) v)) = [pixel_string (v, v, v)]"
proof -
  assume n: "0 < n"
  have "sample_strings (replicate (3 * n) v) = replicate n (pixel_string (v, v, v))"
    using sample_strings_replicate[of n v "[]"] by (simp add: sample_strings_def)
  then have "sample_colors (replicate (3 * n) v) 0 [] = [(pixel_string (v, v, v), n)]"
    using n by (simp add: sample_colors_tally tally_replicate_new del: fold_replicate)
  then show ?thesis
    by (simp add: extractColorPalette_def sorted_entries_def)
qed

lemma palette_black:
  "extractColorPalette (Some (replicate 7500 0)) = [''rgb(0, 0, 0)'']"
  using palette_uniform[of 2500 0] by (simp add: pixel_string_black)

lemma palette_white:
  "extractColorPalette (Some (replicate 7500 255)) = [''rgb(256, 256, 256)'']"
  using palette_uniform[of 2500 255] by (simp add: pixel_string_white)

lemma black_then_white_strings:
  "sample_strings black_then_white =
     replicate 1000 ''rgb(0, 0, 0)'' @ replicate 1500 ''rgb(256, 256, 256)''"
proof -
  have eq: "black_then_white = replicate (3 * 1000) 0 @ (replicate (3 * 1500) 255 @ [])"
    by (simp add: black_then_white_def)
  show ?thesis
    unfolding eq sample_strings_replicate
    by (simp add: sample_strings_def pixel_string_black pixel_string_white)
qed

lemma black_then_white_three_channel: "three_channel black_then_white"
  by (simp add: three_channel_def black_then_white_def)

lemma black_then_white_palette:
  "extractColorPalette (Some black_then_white) = [''rgb(256, 256, 256)'', ''rgb(0, 0, 0)'']"
proof -
  have "fold count_color (sample_strings black_then_white) [] =
      [(''rgb(0, 0, 0)'', 1000), (''rgb(256, 256, 256)'', 1500)]"
    using tally_replicate_new[of "''rgb(0, 0, 0)''" "[]" 1000]
      tally_replicate_new[of "''rgb(256, 256, 256)''" "[(''rgb(0, 0, 0)'', 1000)]" 1500]
    by (simp add: black_then_white_strings del: fold_replicate)
  then show ?thesis
    using black_then_white_three_channel
    by (simp add: extractColorPalette_def sorted_entries_tally)
qed

lemma black_then_white_counts:
  "sample_count black_then_white ''rgb(256, 256, 256)'' = 1500 \<and>
   sample_count black_then_white ''rgb(0, 0, 0)'' = 1000 \<and>
   length (sample_strings black_then_white) = 2500"
  by (simp add: sample_count_def black_then_white_strings count_list_replicate)

text \<open>
  The theorem at a buffer of 50 by 50 pixels, 1000 black and then 1500 white: white,
  the more frequent, comes first.
\<close>

theorem palette_most_frequent_witness:
  "three_channel black_then_white \<and>
   extractColorPalette (Some black_then_white) = [''rgb(256, 256, 256)'', ''rgb(0, 0, 0)''] \<and>
   sample_count black_then_white ''rgb(256, 256, 256)'' = 1500 \<and>
   sample_count black_then_white ''rgb(0, 0, 0)'' = 1000 \<and>
   length (extractColorPalette (Some black_then_white)) =
     min 5 (length (remdups (sample_strings black_then_white))) \<and>
   distinct (extractColorPalette (Some black_then_white)) \<and>
   list_all (\<lambda>c. c \<in> set (sample_strings black_then_white))
     (extractColorPalette (Some black_then_white)) \<and>
   sorted_wrt (\<lambda>c d. sample_count black_then_white d \<le> sample_count black_then_white c)
     (extractColorPalette (Some black_then_white)) \<and>
   list_all (\<lambda>c. 0 < coverage black_then_white c \<and> coverage black_then_white c \<le> 1)
     (extractColorPalette (Some black_then_white)) \<and>
   sum_list (map (coverage black_then_white) (extractColorPalette (Some black_then_white))) \<le> 1"
  using palette_most_frequent[OF black_then_white_three_channel]
    black_then_white_three_channel black_then_white_palette black_then_white_counts
  by blast

text \<open>
  Claim C3, as stated (the palette is a sequence of hex strings, each with a coverage),
  fails: for the buffer of a solid black image, 50 by 50 pixels of three bytes, the
  palette is the single string \<open>rgb(0, 0, 0)\<close>, which is not a hex string, and no
  coverage comes with it.
\<close>

theorem palette_not_hex:
  "extractColorPalette (Some (replicate 7500 0)) = [''rgb(0, 0, 0)''] \<and>
   \<not> hex_color ''rgb(0, 0, 0)''"
  by (simp add: palette_black hex_color_def)

text \<open>
  Claim C10: the quantization \<open>Math.round(c / 16) * 16\<close> sends every channel value \<open>c\<close>
  with \<open>248 \<le> c \<le> 255\<close> to \<open>256\<close>; so the palette of a solid white image, 50 by 50
  pixels of three bytes \<open>255\<close>, is the single colour \<open>rgb(256, 256, 256)\<close>, whose channel
  values lie outside \<open>0..255\<close>.
\<close>

theorem quantized_channel_256:
  "(248 \<le> c \<and> c \<le> 255 \<longrightarrow> round16 (Some c) = Some 256) \<and>
   extractColorPalette (Some (replicate 7500 255)) = [''rgb(256, 256, 256)'']"
proof -
  have "(c + 8) div 16 = 16" if "248 \<le> c" "c \<le> 255"
    using that by arith
  then show ?thesis
    by (auto simp: round16_byte palette_white)
qed

text \<open>
  The theorem at the channel value \<open>250\<close>.
\<close>

theorem quantized_channel_256_witness:
  "(248::nat) \<le> 250 \<and> (250::nat) \<le> 255 \<and> round16 (Some 250) = Some 256"
  using quantized_channel_256[of 250] by simp

section \<open>Brand Identifier: results\<close>

lemma lower_same_letter:
  "((if 65 \<le> a \<and> a \<le> 90 then a + 32 else a) = (if 65 \<le> b \<and> b \<le> 90 then b + 32 else b))
   = same_letter a b"
  for a b :: nat
  unfolding same_letter_def by (auto split: if_splits)

lemma toLowerCase_ci_equal: "(toLowerCase s = toLowerCase t) = ci_equal s t"
proof (induction s arbitrary: t)
  case Nil
  then show ?case by (simp add: toLowerCase_def ci_equal_def)
next
  case (Cons a s)
  show ?case
  proof (cases t)
    case Nil
    then show ?thesis by (simp add: toLowerCase_def ci_equal_def)
  next
    case (Cons b t')
    from Cons.IH[of t'] have "(map (\<lambda>c. if 65 \<le> c \<and> c \<le> 90 then c + 32 else c) s =
        map (\<lambda>c. if 65 \<le> c \<and> c \<le> 90 then c + 32 else c) t') = list_all2 same_letter s t'"
      by (simp add: toLowerCase_def ci_equal_def)
    then show ?thesis
      by (simp add: toLowerCase_def ci_equal_def Cons lower_same_letter)
  qed
qed

lemma canonicalize_spec_letter:
  "(canonicalize ic t = canonicalize ic c) = spec_letter ic t c"
  unfolding canonicalize_def spec_letter_def same_letter_def by (auto split: if_splits)

lemma spec_occurs_iff:
  "spec_occurs ic p s = (\<exists>u v. s = u @ v \<and> spec_lang ic p u)"
proof
  assume "spec_occurs ic p s"
  then obtain n where "spec_lang ic p (take n s)"
    unfolding spec_occurs_def list_ex_iff by blast
  then show "\<exists>u v. s = u @ v \<and> spec_lang ic p u"
    by (metis append_take_drop_id)
next
  assume "\<exists>u v. s = u @ v \<and> spec_lang ic p u"
  then obtain u v where "s = u @ v" "spec_lang ic p u"
    by blast
  then have "length u \<in> set [0..<Suc (length s)]" "spec_lang ic p (take (length u) s)"
    by simp_all
  then show "spec_occurs ic p s"
    unfolding spec_occurs_def list_ex_iff by blast
qed

lemma occurs_empty_pattern: "spec_occurs ic [] s"
  by (simp add: spec_occurs_iff)

lemma occurs_nil: "spec_occurs ic p [] = spec_lang ic p []"
  by (simp add: spec_occurs_iff)

lemma occurs_Lit_Cons:
  "spec_occurs ic (Lit c # p) (t # s) = (spec_letter ic t c \<and> spec_occurs ic p s)"
proof
  assume "spec_occurs ic (Lit c # p) (t # s)"
  then obtain u v where uv: "t # s = u @ v" "spec_lang ic (Lit c # p) u"
    by (auto simp: spec_occurs_iff)
  from uv(2) obtain u' where u: "u = t # u'" "spec_letter ic t c" "spec_lang ic p u'"
    using uv(1) by (cases u) auto
  with uv(1) have "s = u' @ v" by simp
  with u show "spec_letter ic t c \<and> spec_occurs ic p s"
    by (auto simp: spec_occurs_iff)
next
  assume "spec_letter ic t c \<and> spec_occurs ic p s"
  then obtain u v where "spec_letter ic t c" "s = u @ v" "spec_lang ic p u"
    by (auto simp: spec_occurs_iff)
  then have "t # s = (t # u) @ v" "spec_lang ic (Lit c # p) (t # u)"
    by simp_all
  then show "spec_occurs ic (Lit c # p) (t # s)"
    unfolding spec_occurs_iff by blast
qed

lemma occurs_Opt_Cons:
  "spec_occurs ic (OptAny # p) (t # s) =
     (spec_occurs ic p (t # s) \<or> (\<not> line_terminator t \<and> spec_occurs ic p s))"
proof
  assume "spec_occurs ic (OptAny # p) (t # s)"
  then obtain u v where uv: "t # s = u @ v" "spec_lang ic (OptAny # p) u"
    by (auto simp: spec_occurs_iff)
  show "spec_occurs ic p (t # s) \<or> (\<not> line_terminator t \<and> spec_occurs ic p s)"
  proof (cases "spec_lang ic p u")
    case True
    with uv(1) show ?thesis
      unfolding spec_occurs_iff by blast
  next
    case False
    with uv(2) obtain u' where u: "u = t # u'" "\<not> line_terminator t" "spec_lang ic p u'"
      using uv(1) by (cases u) auto
    with uv(1) have "s = u' @ v" by simp
    with u show ?thesis
      unfolding spec_occurs_iff by blast
  qed
next
  assume r: "spec_occurs ic p (t # s) \<or> (\<not> line_terminator t \<and> spec_occurs ic p s)"
  show "spec_occurs ic (OptAny # p) (t # s)"
  proof (cases "spec_occurs ic p (t # s)")
    case True
    then obtain u v where "t # s = u @ v" "spec_lang ic p u"
      by (auto simp: spec_occurs_iff)
    then have "t # s = u @ v" "spec_lang ic (OptAny # p) u"
      by simp_all
    then show ?thesis
      unfolding spec_occurs_iff by blast
  next
    case False
    with r obtain u v where "\<not> line_terminator t" "s = u @ v" "spec_lang ic p u"
      by (auto simp: spec_occurs_iff)
    then have "t # s = (t # u) @ v" "spec_lang ic (OptAny # p) (t # u)"
      by simp_all
    then show ?thesis
      unfolding spec_occurs_iff by blast
  qed
qed

lemma match_here_spec:
  "match_here ic p s = (if spec_occurs ic p s then Some (spec_length ic p s) else None)"
proof (induction ic p s rule: match_here.induct)
  case (1 ic s)
  then show ?case by (simp add: occurs_empty_pattern)
next
  case (2 ic c p)
  then show ?case by (simp add: occurs_nil)
next
  case (3 ic c p t s)
  then show ?case by (simp add: occurs_Lit_Cons canonicalize_spec_letter)
next
  case (4 ic p)
  then show ?case by (simp add: occurs_nil)
next
  case (5 ic p t s)
  then show ?case by (simp add: occurs_Opt_Cons)
qed

lemma match_all_count: "length (match_all ic p s) = spec_count ic p s"
proof (induction ic p s rule: match_all.induct)
  case (1 ic p)
  then show ?case by (simp add: match_here_spec occurs_nil)
next
  case (2 ic p t s)
  then show ?case by (simp add: match_here_spec drop_Cons')
qed

lemma keyword_step_eq:
  "keyword_step txt keyword score = score + 10 * keyword_count txt keyword"
  by (simp add: keyword_step_def js_match_def keyword_regexp_def literal_def keyword_count_def
      Let_def match_all_count [symmetric])

lemma pattern_step_eq:
  "pattern_step txt pattern score = score + 15 * pattern_count txt pattern"
  by (simp add: pattern_step_def js_match_def pattern_count_def Let_def
      match_all_count [symmetric])

lemma fold_keyword_step:
  "fold (keyword_step txt) kws score =
     score + 10 * sum_list (map (keyword_count txt) kws)"
  by (induction kws arbitrary: score) (simp_all add: keyword_step_eq algebra_simps)

lemma fold_pattern_step:
  "fold (pattern_step txt) patterns score =
     score + 15 * sum_list (map (pattern_count txt) patterns)"
  by (induction patterns arbitrary: score) (simp_all add: pattern_step_eq algebra_simps)

lemma fold_color_step:
  "fold (color_step brandColors) colorPalette score =
     score + 25 * length (filter (\<lambda>color. toLowerCase color \<in> set brandColors) colorPalette)"
  by (induction colorPalette arbitrary: score) (simp_all add: color_step_def)

lemma brand_score_closed:
  "brand_score db txt colorPalette brandName keywords =
   spec_score db txt colorPalette brandName keywords"
  by (simp add: brand_score_def spec_score_def patterns_of_def matching_colors_def
        fold_keyword_step fold_pattern_step fold_color_step toLowerCase_ci_equal Let_def
        split: option.splits)

lemma update_new:
  "n \<notin> fst ` set al \<Longrightarrow> AList.update n v al = al @ [(n, v)]"
  by (induction al) auto

lemma fold_score_entry:
  "distinct (map fst es) \<Longrightarrow> fst ` set acc \<inter> fst ` set es = {} \<Longrightarrow>
   fold (score_entry db txt pal) es acc =
     acc @ filter (\<lambda>p. 0 < snd p)
             (map (\<lambda>e. (fst e, spec_score db txt pal (fst e) (snd e))) es)"
proof (induction es arbitrary: acc)
  case Nil
  then show ?case by simp
next
  case (Cons e es)
  let ?s = "spec_score db txt pal (fst e) (snd e)"
  let ?acc = "if 0 < ?s then acc @ [(fst e, ?s)] else acc"
  have new: "fst e \<notin> fst ` set acc"
    using Cons.prems(2) by auto
  have step: "score_entry db txt pal e acc = ?acc"
    by (simp add: score_entry_def brand_score_closed Let_def update_new[OF new])
  have d: "distinct (map fst es)"
    using Cons.prems(1) by simp
  have disj: "fst ` set ?acc \<inter> fst ` set es = {}"
    using Cons.prems by auto
  show ?case
    using Cons.IH[OF d disj] by (simp add: step)
qed

lemma hd_insort_key:
  "hd (insort_key f x ys) = (if ys = [] then x else if f x \<le> f (hd ys) then x else hd ys)"
  by (cases ys) simp_all

lemma insort_key_nonempty: "insort_key f x ys \<noteq> []"
  by (cases ys) simp_all

lemma sort_key_nonempty: "xs \<noteq> [] \<Longrightarrow> sort_key f xs \<noteq> []"
  by (cases xs) (simp_all add: insort_key_nonempty)

lemma hd_sort_key:
  "xs \<noteq> [] \<Longrightarrow>
   hd (sort_key f xs) \<in> set xs \<and>
   (\<forall>x \<in> set xs. f (hd (sort_key f xs)) \<le> f x) \<and>
   find (\<lambda>x. f x = f (hd (sort_key f xs))) xs = Some (hd (sort_key f xs))"
  for f :: "'a \<Rightarrow> int"
proof (induction xs)
  case Nil
  then show ?case by simp
next
  case (Cons x xs)
  show ?case
  proof (cases "xs = []")
    case True
    then show ?thesis by simp
  next
    case False
    let ?h = "hd (sort_key f xs)"
    from Cons.IH[OF False] have h: "?h \<in> set xs" "\<forall>y \<in> set xs. f ?h \<le> f y"
        "find (\<lambda>y. f y = f ?h) xs = Some ?h"
      by simp_all
    have ne: "sort_key f xs \<noteq> []"
      using False by (rule sort_key_nonempty)
    show ?thesis
    proof (cases "f x \<le> f ?h")
      case True
      then have "hd (sort_key f (x # xs)) = x"
        using ne by (simp add: hd_insort_key)
      with True h show ?thesis by auto
    next
      case False
      then have "hd (sort_key f (x # xs)) = ?h"
        using ne by (simp add: hd_insort_key)
      with False h show ?thesis by auto
    qed
  qed
qed


lemma foldr_max_eq:
  "m \<in> set ss \<Longrightarrow> \<forall>s \<in> set ss. s \<le> m \<Longrightarrow> foldr max ss 0 = m"
  for m :: nat
proof (induction ss)
  case Nil
  then show ?case by simp
next
  case (Cons s ss)
  show ?case
  proof (cases "m \<in> set ss")
    case True
    with Cons have "foldr max ss 0 = m" by simp
    with Cons.prems show ?thesis by simp
  next
    case False
    with Cons.prems have m: "s = m" by simp
    have "foldr max ss 0 \<le> m"
      using Cons.prems(2) by (induction ss) auto
    with m show ?thesis by simp
  qed
qed

lemma foldr_max_zero: "\<forall>s \<in> set ss. s = 0 \<Longrightarrow> foldr max ss 0 = 0"
  for ss :: "nat list"
  by (induction ss) auto

lemma find_filter:
  "(\<And>x. P x \<Longrightarrow> Q x) \<Longrightarrow> find P (filter Q xs) = find P xs"
  by (induction xs) auto

lemma find_map_pair:
  "find (\<lambda>p. snd p = t) (map (\<lambda>e. (fst e, g e)) xs) =
   map_option (\<lambda>e. (fst e, g e)) (find (\<lambda>e. g e = t) xs)"
  by (induction xs) auto

lemma scores_of_registry:
  "distinct (map fst (brandKeywords db)) \<Longrightarrow>
   fold (score_entry db txt pal) (brandKeywords db) [] =
     filter (\<lambda>p. 0 < snd p)
       (map (\<lambda>e. (fst e, spec_score db txt pal (fst e) (snd e))) (brandKeywords db))"
  using fold_score_entry[of "brandKeywords db" "[]" db "txt" pal] by simp

lemma detectBrand_closed:
  assumes "distinct (map fst (brandKeywords db))"
  shows "detectBrand db txt pal =
     \<lparr>brand = (if 3 / 10 < min (real (spec_top db txt pal) / 100) 1
               then spec_winner db txt pal else None),
      confidence = min (real (spec_top db txt pal) / 100) 1\<rparr>"
proof -
  let ?es = "brandKeywords db"
  let ?sc = "\<lambda>e. spec_score db txt pal (fst e) (snd e)"
  let ?g = "\<lambda>e. (fst e, ?sc e)"
  let ?f = "\<lambda>p :: string \<times> nat. - int (snd p)"
  define sl where "sl = filter (\<lambda>p. 0 < snd p) (map ?g ?es)"
  have scores: "fold (score_entry db txt pal) ?es [] = sl"
    unfolding sl_def using assms by (rule scores_of_registry)
  have sl_set: "set sl = {p \<in> ?g ` set ?es. 0 < snd p}"
    by (auto simp: sl_def)
  show ?thesis
  proof (cases "sl = []")
    case True
    then have "\<forall>e \<in> set ?es. ?sc e = 0"
      using sl_set by auto
    then have "spec_top db txt pal = 0"
      unfolding spec_top_def by (intro foldr_max_zero) auto
    with True show ?thesis
      by (simp add: detectBrand_def scores Let_def)
  next
    case False
    define h where "h = hd (sort_key ?f sl)"
    from hd_sort_key[OF False, of ?f]
    have h_in: "h \<in> set sl"
      and h_max: "\<forall>p \<in> set sl. snd p \<le> snd h"
      and h_first: "find (\<lambda>p. snd p = snd h) sl = Some h"
      by (simp_all add: h_def)
    from h_in obtain e0 where e0: "e0 \<in> set ?es" "h = ?g e0" "0 < ?sc e0"
      using sl_set by auto
    have le: "?sc e \<le> snd h" if "e \<in> set ?es" for e
    proof (cases "0 < ?sc e")
      case True
      with that have "?g e \<in> set sl" using sl_set by simp
      with h_max show ?thesis by fastforce
    next
      case False
      then show ?thesis by simp
    qed
    have top: "spec_top db txt pal = snd h"
      unfolding spec_top_def
    proof (rule foldr_max_eq)
      show "snd h \<in> set (map ?sc ?es)"
        using e0 by (auto simp: image_iff)
      show "\<forall>s \<in> set (map ?sc ?es). s \<le> snd h"
        using le by auto
    qed
    have pos: "0 < snd h"
      using e0 by simp
    have "find (\<lambda>p. snd p = snd h) sl = find (\<lambda>p. snd p = snd h) (map ?g ?es)"
      unfolding sl_def using pos by (intro find_filter) simp
    also have "\<dots> = map_option ?g (find (\<lambda>e. ?sc e = snd h) ?es)"
      by (rule find_map_pair)
    finally have "map_option ?g (find (\<lambda>e. ?sc e = snd h) ?es) = Some h"
      using h_first by simp
    then obtain e1 where e1: "find (\<lambda>e. ?sc e = snd h) ?es = Some e1" "?g e1 = h"
      by blast
    from e1(2) have "fst e1 = fst h"
      by (metis fst_conv)
    with e1(1) have winner: "spec_winner db txt pal = Some (fst h)"
      unfolding spec_winner_def top by simp
    have nth: "sort_key ?f sl ! 0 = h"
      using sort_key_nonempty[OF False, of ?f] by (simp add: hd_conv_nth h_def)
    have "detectBrand db txt pal =
        \<lparr>brand = (if 3 / 10 < min (real (snd h) / 100) 1 then Some (fst h) else None),
         confidence = min (real (snd h) / 100) 1\<rparr>"
      using False unfolding detectBrand_def scores Let_def nth by simp
    then show ?thesis
      by (simp add: top winner)
  qed
qed

lemmas registry_defs = initial_database_def initial_brands_def
  toss_keywords_def kakao_keywords_def naver_keywords_def
  toss_patterns_def kakao_patterns_def naver_patterns_def

lemmas match_defs = js_def literal_def keyword_regexp_def js_match_def canonicalize_def
  line_terminator_def toLowerCase_def

lemmas score_defs = score_entry_def brand_score_def keyword_step_def pattern_step_def
  color_step_def

lemma registry_ok_initial: "registry_ok initial_database"
  by (simp add: registry_ok_def registry_defs plain_keyword_def metacharacters_def js_def)

lemma toss_scenario_scores:
  "fold (score_entry initial_database (js ''toss payment app'') [js ''#0064FF'', js ''#F5F7FA''])
     (brandKeywords initial_database) [] = [(''toss'', 85)]"
  by (simp add: score_defs registry_defs match_defs)

lemma kakao_scores:
  "fold (score_entry initial_database (js ''kakao'') []) (brandKeywords initial_database) [] =
     [(''kakao'', 25)]"
  by (simp add: score_defs registry_defs match_defs)

lemma empty_scores:
  "brand_score initial_database [] [] ''toss'' toss_keywords = 0 \<and>
   brand_score initial_database [] [] ''kakao'' kakao_keywords = 0 \<and>
   brand_score initial_database [] [] ''naver'' naver_keywords = 0"
  by (simp add: score_defs registry_defs match_defs)

lemma tie_scores:
  "fold (score_entry initial_database (js ''kakao'') [js ''#0064FF'', js ''#FF6B35''])
     (brandKeywords initial_database) [] = [(''toss'', 50), (''kakao'', 50)]"
  by (simp add: score_defs registry_defs match_defs)

lemma tie_brand_scores:
  "brand_score initial_database (js ''kakao'') [js ''#0064FF'', js ''#FF6B35''] ''toss''
     toss_keywords = 50 \<and>
   brand_score initial_database (js ''kakao'') [js ''#0064FF'', js ''#FF6B35''] ''kakao''
     kakao_keywords = 50 \<and>
   brand_score initial_database (js ''kakao'') [js ''#0064FF'', js ''#FF6B35''] ''naver''
     naver_keywords = 0"
  by (simp add: score_defs registry_defs match_defs)

lemma kakao_brand_scores:
  "brand_score initial_database (js ''kakao'') [] ''toss'' toss_keywords = 0 \<and>
   brand_score initial_database (js ''kakao'') [] ''kakao'' kakao_keywords = 25 \<and>
   brand_score initial_database (js ''kakao'') [] ''naver'' naver_keywords = 0"
  by (simp add: score_defs registry_defs match_defs)

text \<open>
  Claim C4, as stated (the profile with the maximum score wins), fails: for the text
  \<open>kakao\<close> and no candidate colour the profile \<open>kakao\<close> has the only positive score, 25,
  and yet no brand is returned, the confidence \<open>0.25\<close> being below the threshold.
\<close>

theorem top_profile_not_returned:
  "brand_score initial_database (js ''kakao'') [] ''toss'' toss_keywords = 0 \<and>
   brand_score initial_database (js ''kakao'') [] ''kakao'' kakao_keywords = 25 \<and>
   brand_score initial_database (js ''kakao'') [] ''naver'' naver_keywords = 0 \<and>
   detectBrand initial_database (js ''kakao'') [] = \<lparr>brand = None, confidence = 1 / 4\<rparr>"
  by (simp add: kakao_brand_scores detectBrand_def kakao_scores Let_def)

text \<open>
  Claim C4, amended: for every input text and candidate colour list, each profile of the
  registry gets the score 10 times its keyword occurrence count plus 15 times its pattern
  occurrence count plus 25 times the number of candidate colours that match,
  case-insensitively, its primary, secondary or accent colour; the confidence is
  \<open>min (top / 100) 1\<close> for the largest score \<open>top\<close>; the profile with the largest score,
  the first-inserted one among equals, is the brand returned when the confidence exceeds
  \<open>0.3\<close>, and otherwise the brand is null.
\<close>

theorem brand_scoring:
  assumes "registry_ok db"
  shows "list_all (\<lambda>e. brand_score db txt pal (fst e) (snd e) =
                        spec_score db txt pal (fst e) (snd e)) (brandKeywords db) \<and>
         confidence (detectBrand db txt pal) = min (real (spec_top db txt pal) / 100) 1 \<and>
         brand (detectBrand db txt pal) =
           (if 3 / 10 < min (real (spec_top db txt pal) / 100) 1
            then spec_winner db txt pal else None)"
proof -
  from assms have "distinct (map fst (brandKeywords db))"
    by (simp add: registry_ok_def)
  then show ?thesis
    by (simp add: detectBrand_closed brand_score_closed list_all_iff)
qed

text \<open>
  The theorem at the constructor's registry, the text \<open>kakao\<close> and the candidate colours
  \<open>#0064FF\<close> and \<open>#FF6B35\<close>: \<open>toss\<close> (two colours) and \<open>kakao\<close> (keyword, pattern and one
  colour) tie at 50, and the first-inserted \<open>toss\<close> is returned with confidence \<open>0.5\<close>.
\<close>

theorem brand_scoring_witness:
  "registry_ok initial_database \<and>
   spec_score initial_database (js ''kakao'') [js ''#0064FF'', js ''#FF6B35''] ''toss''
     toss_keywords = 50 \<and>
   spec_score initial_database (js ''kakao'') [js ''#0064FF'', js ''#FF6B35''] ''kakao''
     kakao_keywords = 50 \<and>
   spec_score initial_database (js ''kakao'') [js ''#0064FF'', js ''#FF6B35''] ''naver''
     naver_keywords = 0 \<and>
   spec_top initial_database (js ''kakao'') [js ''#0064FF'', js ''#FF6B35''] = 50 \<and>
   spec_winner initial_database (js ''kakao'') [js ''#0064FF'', js ''#FF6B35''] = Some ''toss'' \<and>
   detectBrand initial_database (js ''kakao'') [js ''#0064FF'', js ''#FF6B35''] =
     \<lparr>brand = Some ''toss'', confidence = 1 / 2\<rparr>"
proof -
  let ?t = "js ''kakao''"
  let ?p = "[js ''#0064FF'', js ''#FF6B35'']"
  have result: "detectBrand initial_database ?t ?p = \<lparr>brand = Some ''toss'', confidence = 1 / 2\<rparr>"
    by (simp add: detectBrand_def tie_scores Let_def)
  note inst = brand_scoring[OF registry_ok_initial, of ?t ?p]
  from inst have scores:
    "spec_score initial_database ?t ?p ''toss'' toss_keywords = 50"
    "spec_score initial_database ?t ?p ''kakao'' kakao_keywords = 50"
    "spec_score initial_database ?t ?p ''naver'' naver_keywords = 0"
    using tie_brand_scores by (simp_all add: initial_database_def)
  from inst result have conf: "min (real (spec_top initial_database ?t ?p) / 100) 1 = 1 / 2"
    by simp
  then have top: "spec_top initial_database ?t ?p = 50"
    by (simp add: min_def split: if_splits)
  from inst result conf have winner: "spec_winner initial_database ?t ?p = Some ''toss''"
    by simp
  from registry_ok_initial scores top winner result show ?thesis
    by simp
qed

text \<open>
  Claim C5: for the text \<open>toss payment app\<close> and the candidate colours \<open>#0064FF\<close> and
  \<open>#F5F7FA\<close> the Brand Identifier returns the brand \<open>toss\<close> with a confidence of at
  least \<open>0.5\<close> (it is \<open>0.85\<close>: two keywords, one pattern, two colours).
\<close>

theorem toss_scenario:
  "detectBrand initial_database (js ''toss payment app'') [js ''#0064FF'', js ''#F5F7FA''] =
     \<lparr>brand = Some ''toss'', confidence = 85 / 100\<rparr> \<and>
   1 / 2 \<le> confidence (detectBrand initial_database (js ''toss payment app'')
                          [js ''#0064FF'', js ''#F5F7FA''])"
  by (simp add: detectBrand_def toss_scenario_scores Let_def)

lemma fold_score_entry_zero:
  "\<forall>e \<in> set es. brand_score db txt pal (fst e) (snd e) = 0 \<Longrightarrow>
   fold (score_entry db txt pal) es acc = acc"
  by (induction es arbitrary: acc) (simp_all add: score_entry_def)

text \<open>
  Claim C6: the brand name is null whenever no profile has a score above \<open>0\<close> (the
  confidence is then \<open>0\<close>), and whenever the confidence is at most \<open>0.3\<close>; in
  particular the empty text with no candidate colour gives a null match of confidence
  \<open>0\<close>.
\<close>

theorem null_brand:
  "((\<forall>e \<in> set (brandKeywords db). brand_score db txt pal (fst e) (snd e) = 0) \<longrightarrow>
      detectBrand db txt pal = \<lparr>brand = None, confidence = 0\<rparr>) \<and>
   (confidence (detectBrand db txt pal) \<le> 3 / 10 \<longrightarrow> brand (detectBrand db txt pal) = None) \<and>
   detectBrand initial_database [] [] = \<lparr>brand = None, confidence = 0\<rparr>"
proof -
  have zero: "detectBrand d t p = \<lparr>brand = None, confidence = 0\<rparr>"
    if "\<forall>e \<in> set (brandKeywords d). brand_score d t p (fst e) (snd e) = 0" for d t p
    using fold_score_entry_zero[OF that, of "[]"] by (simp add: detectBrand_def)
  have low: "brand (detectBrand db txt pal) = None"
    if "confidence (detectBrand db txt pal) \<le> 3 / 10"
    using that by (auto simp: detectBrand_def Let_def split: if_splits)
  have "\<forall>e \<in> set (brandKeywords initial_database). brand_score initial_database [] [] (fst e) (snd e) = 0"
    using empty_scores by (simp add: initial_database_def)
  then have "detectBrand initial_database [] [] = \<lparr>brand = None, confidence = 0\<rparr>"
    by (rule zero)
  with zero low show ?thesis by blast
qed

text \<open>
  The theorem at the text \<open>kakao\<close>, of confidence \<open>0.25\<close>, and at the empty input.
\<close>

theorem null_brand_witness:
  "confidence (detectBrand initial_database (js ''kakao'') []) \<le> 3 / 10 \<and>
   brand (detectBrand initial_database (js ''kakao'') []) = None \<and>
   brand_score initial_database [] [] ''toss'' toss_keywords = 0 \<and>
   brand_score initial_database [] [] ''kakao'' kakao_keywords = 0 \<and>
   brand_score initial_database [] [] ''naver'' naver_keywords = 0 \<and>
   detectBrand initial_database [] [] = \<lparr>brand = None, confidence = 0\<rparr>"
proof -
  have low: "confidence (detectBrand initial_database (js ''kakao'') []) \<le> 3 / 10"
    by (simp add: detectBrand_def kakao_scores Let_def)
  from null_brand[of initial_database "js ''kakao''" "[]"] low empty_scores show ?thesis
    by blast
qed

end
